theory Spec2Isabelle
  imports
    Complex_Main
    "HOL-Library.AList"
    "HOL-Library.Char_ord"
    "HOL-Library.List_Lexorder"
    "HOL-Library.Multiset"
begin

chapter \<open>The shared insight memory of the bar agents (memory_manager.py)\<close>

text \<open>
  A shallow embedding of \<^verbatim>\<open>src/memory_manager.py\<close>: the class \<^verbatim>\<open>MemoryManager\<close> with its
  snapshot file, the extraction pipeline, deduplication, id allocation, pruning and the
  rendering of the prompt context.

  Conventions of the model.
  \<^item> Python strings are \<open>string\<close>; the model is exact on ASCII text (\<open>lower\<close> and
    \<open>strip\<close> treat characters above 127 as letters without case and as non-blank).
  \<^item> Strings are compared as Python compares them: lexicographically by character code
    (\<open>List_Lexorder\<close> over \<open>Char_ord\<close>).
  \<^item> The in-memory dictionary \<^verbatim>\<open>self.memory\<close> is the record \<open>store\<close>; an entry is the
    record \<open>entry\<close>, where a field the code reads with \<^verbatim>\<open>.get\<close> is an \<open>option\<close>.
    What comes from outside (the answer of the extraction service, the content of the
    snapshot file) is an untyped JSON value \<open>jv\<close>, and the model follows the dynamic
    checks the code performs on it; an exception is a value of \<open>error\<close>.
  \<^item> The clock, the text-generation service and the JSON parser are the environment
    \<open>env\<close> of a call. One call of an operation reads the clock once. The date library
    is taken as total (it raises outside the years 1 to 9999), and reading and writing
    the snapshot file does not fail.
  \<^item> A log line keeps the fixed part of the message and its level; interpolated
    values are left out.
\<close>

section \<open>Python strings\<close>

definition py_isspace :: "char \<Rightarrow> bool" where
  "py_isspace c = (of_char c \<in> {9, 10, 11, 12, 13, 28, 29, 30, 31, 32 :: nat})"

definition lower_char :: "char \<Rightarrow> char" where
  "lower_char c =
     (case map_of (zip ''ABCDEFGHIJKLMNOPQRSTUVWXYZ'' ''abcdefghijklmnopqrstuvwxyz'') c of
        Some d \<Rightarrow> d
      | None \<Rightarrow> c)"

text \<open>\<^verbatim>\<open>s.lower()\<close>, \<^verbatim>\<open>s.strip()\<close>, \<^verbatim>\<open>s.rstrip(chars)\<close>, \<^verbatim>\<open>s.startswith(p)\<close>,
  \<^verbatim>\<open>s.endswith(p)\<close> and \<^verbatim>\<open>sep.join(lines)\<close>.\<close>

definition lower :: "string \<Rightarrow> string" where
  "lower s = map lower_char s"

definition lstrip :: "string \<Rightarrow> string" where
  "lstrip s = dropWhile py_isspace s"

definition rstrip :: "string \<Rightarrow> string" where
  "rstrip s = rev (dropWhile py_isspace (rev s))"

definition strip :: "string \<Rightarrow> string" where
  "strip s = rstrip (lstrip s)"

definition rstrip_chars :: "string \<Rightarrow> string \<Rightarrow> string" where
  "rstrip_chars s chars = rev (dropWhile (\<lambda>c. c \<in> set chars) (rev s))"

definition startswith :: "string \<Rightarrow> string \<Rightarrow> bool" where
  "startswith s p = (take (length p) s = p)"

definition endswith :: "string \<Rightarrow> string \<Rightarrow> bool" where
  "endswith s p = (length p \<le> length s \<and> drop (length s - length p) s = p)"

fun join :: "string \<Rightarrow> string list \<Rightarrow> string" where
  "join sep [] = []"
| "join sep [l] = l"
| "join sep (l # ls) = l @ sep @ join sep ls"

text \<open>Decimal numerals and zero padding: \<^verbatim>\<open>f"{n:03d}"\<close> is \<open>zfill 3 (dec n)\<close>.\<close>

definition digit_char :: "nat \<Rightarrow> char" where
  "digit_char d = ''0123456789'' ! d"

fun dec :: "nat \<Rightarrow> string" where
  "dec n = (if n < 10 then [digit_char n] else dec (n div 10) @ [digit_char (n mod 10)])"

declare dec.simps [simp del]

definition zfill :: "nat \<Rightarrow> string \<Rightarrow> string" where
  "zfill w s = replicate (w - length s) (CHR ''0'') @ s"

section \<open>Normalisation key of the deduplication\<close>

text \<open>The expression \<^verbatim>\<open>entry["content"].lower().strip().rstrip(".")\<close> of
  \<^verbatim>\<open>_deduplicate\<close> (lines 260 and 263).\<close>

definition normalize_text :: "string \<Rightarrow> string" where
  "normalize_text s = rstrip_chars (strip (lower s)) ''.''"

text \<open>The key as the specification words it: lowercased, trimmed, and one trailing
  period stripped.\<close>

definition strip_one_period :: "string \<Rightarrow> string" where
  "strip_one_period s = (if endswith s ''.'' then butlast s else s)"

definition normalize_spec :: "string \<Rightarrow> string" where
  "normalize_spec s = strip_one_period (strip (lower s))"

section \<open>JSON values and the dynamic checks of Python\<close>

text \<open>What \<^verbatim>\<open>json.loads\<close> and \<^verbatim>\<open>json.load\<close> return. A \<open>JDict\<close> lists the items of a
  Python dictionary in insertion order; \<open>JNum\<close> is an integer or a float, of which the
  code only observes whether it is zero.\<close>

datatype jv =
    JNull
  | JBool bool
  | JNum rat
  | JStr string
  | JList "jv list"
  | JDict "(string \<times> jv) list"

datatype error = TypeError | AttributeError | KeyError

text \<open>Truth value of a JSON value (\<^verbatim>\<open>if v\<close>) and \<^verbatim>\<open>len(v)\<close>, which raises
  \<^verbatim>\<open>TypeError\<close> on \<^verbatim>\<open>None\<close>, booleans and numbers.\<close>

fun truthy :: "jv \<Rightarrow> bool" where
  "truthy JNull = False"
| "truthy (JBool b) = b"
| "truthy (JNum n) = (n \<noteq> 0)"
| "truthy (JStr s) = (s \<noteq> [])"
| "truthy (JList xs) = (xs \<noteq> [])"
| "truthy (JDict kvs) = (kvs \<noteq> [])"

fun py_len :: "jv \<Rightarrow> error + nat" where
  "py_len (JStr s) = Inr (length s)"
| "py_len (JList xs) = Inr (length xs)"
| "py_len (JDict kvs) = Inr (length kvs)"
| "py_len v = Inl TypeError"

section \<open>Constants of the module\<close>

definition VALID_CATEGORIES :: "string list" where
  "VALID_CATEGORIES =
     [''owner_preferences'', ''approved_decisions'', ''rejected_ideas'',
      ''operational_notes'', ''event_history'']"

definition MAX_ENTRIES_PER_CATEGORY_IN_PROMPT :: nat where
  "MAX_ENTRIES_PER_CATEGORY_IN_PROMPT = 5"

section \<open>The store, the manager and its environment\<close>

text \<open>An entry of a category (the dictionary \<^verbatim>\<open>mem_entry\<close>); \<open>created\<close> is read with
  \<^verbatim>\<open>entry.get("created", "")\<close>, the confidence is stored as the service gave it. An
  archived entry is a copy with two more keys; \<open>original_category\<close> is read with
  \<^verbatim>\<open>e.get("original_category")\<close>.\<close>

record entry =
  entry_id :: string
  content :: string
  source_agent :: string
  created :: "string option"
  confidence :: jv

record archived_entry = entry +
  original_category :: "string option"
  archived_on :: string

record store =
  version :: int
  last_updated :: string
  categories :: "(string \<times> entry list) list"
  archive :: "archived_entry list"

text \<open>The file at \<^verbatim>\<open>memory_path\<close>: absent, present but not JSON (\<^verbatim>\<open>json.load\<close> raises
  \<^verbatim>\<open>JSONDecodeError\<close>), or a JSON document.\<close>

datatype snapshot_file = Missing | Unparsable | Json jv

datatype level = Info | Ok | Warn | Err

type_synonym log_line = "level \<times> string"

record manager =
  memory :: store
  disk :: snapshot_file
  logs :: "log_line list"

text \<open>A naive \<^verbatim>\<open>datetime\<close> and its \<^verbatim>\<open>isoformat()\<close>.\<close>

record datetime =
  year :: nat
  month :: nat
  day :: nat
  hour :: nat
  minute :: nat
  second :: nat
  microsecond :: nat

definition isoformat :: "datetime \<Rightarrow> string" where
  "isoformat d =
     zfill 4 (dec (year d)) @ ''-'' @ zfill 2 (dec (month d)) @ ''-'' @ zfill 2 (dec (day d))
     @ ''T'' @ zfill 2 (dec (hour d)) @ '':'' @ zfill 2 (dec (minute d)) @ '':''
     @ zfill 2 (dec (second d))
     @ (if microsecond d = 0 then [] else ''.'' @ zfill 6 (dec (microsecond d)))"

text \<open>The answer of \<^verbatim>\<open>client.models.generate_content\<close>: the call raises (network
  error, timeout), or it returns a response whose \<^verbatim>\<open>.text\<close> is a string or \<^verbatim>\<open>None\<close>.\<close>

datatype llm_reply = Raises | Text "string option"

text \<open>The environment of one call: \<open>now\<close> is \<^verbatim>\<open>datetime.datetime.now()\<close>,
  \<open>days_ago d\<close> is \<^verbatim>\<open>datetime.datetime.now() - datetime.timedelta(days=d)\<close>,
  \<open>generate_content\<close> answers the extraction prompt built from the memory summary, the
  owner's message and the truncated response, and \<open>json_loads\<close> is \<^verbatim>\<open>json.loads\<close>
  (\<open>None\<close> for \<^verbatim>\<open>JSONDecodeError\<close>).\<close>

record env =
  now :: datetime
  days_ago :: "int \<Rightarrow> datetime"
  generate_content :: "string \<Rightarrow> string \<Rightarrow> string \<Rightarrow> llm_reply"
  json_loads :: "string \<Rightarrow> jv option"

text \<open>\<^verbatim>\<open>categories.get(cat, [])\<close>.\<close>

definition get_entries :: "(string \<times> entry list) list \<Rightarrow> string \<Rightarrow> entry list" where
  "get_entries cats cat = (case map_of cats cat of None \<Rightarrow> [] | Some es \<Rightarrow> es)"

section \<open>Persistence\<close>

definition empty_memory :: "env \<Rightarrow> store" where
  "empty_memory ev =
     \<lparr>version = 1,
      last_updated = isoformat (now ev),
      categories = map (\<lambda>cat. (cat, [])) VALID_CATEGORIES,
      archive = []\<rparr>"

text \<open>The JSON document that \<^verbatim>\<open>json.dump\<close> writes for a store.\<close>

definition entry_items :: "'a entry_scheme \<Rightarrow> (string \<times> jv) list" where
  "entry_items e =
     [(''id'', JStr (entry_id e)), (''content'', JStr (content e)),
      (''source_agent'', JStr (source_agent e))]
     @ (case created e of None \<Rightarrow> [] | Some c \<Rightarrow> [(''created'', JStr c)])
     @ [(''confidence'', confidence e)]"

definition json_of_entry :: "entry \<Rightarrow> jv" where
  "json_of_entry e = JDict (entry_items e)"

definition json_of_archived :: "archived_entry \<Rightarrow> jv" where
  "json_of_archived a =
     JDict (entry_items a
       @ (case original_category a of None \<Rightarrow> [] | Some c \<Rightarrow> [(''original_category'', JStr c)])
       @ [(''archived_on'', JStr (archived_on a))])"

definition json_of_store :: "store \<Rightarrow> jv" where
  "json_of_store m =
     JDict [(''version'', JNum (of_int (version m))),
            (''last_updated'', JStr (last_updated m)),
            (''categories'',
               JDict (map (\<lambda>(cat, es). (cat, JList (map json_of_entry es))) (categories m))),
            (''archive'', JList (map json_of_archived (archive m)))]"

text \<open>Line 60 of \<^verbatim>\<open>load_memory\<close>:
  \<^verbatim>\<open>sum(len(data.get("categories", {}).get(c, [])) for c in VALID_CATEGORIES)\<close>.
  Only a dictionary has \<^verbatim>\<open>.get\<close>.\<close>

fun sum_lens :: "(string \<times> jv) list \<Rightarrow> string list \<Rightarrow> error + nat" where
  "sum_lens cats [] = Inr 0"
| "sum_lens cats (c # cs) =
     (case py_len (case map_of cats c of None \<Rightarrow> JList [] | Some v \<Rightarrow> v) of
        Inl e \<Rightarrow> Inl e
      | Inr n \<Rightarrow> (case sum_lens cats cs of Inl e \<Rightarrow> Inl e | Inr t \<Rightarrow> Inr (n + t)))"

definition count_loaded :: "jv \<Rightarrow> error + nat" where
  "count_loaded data =
     (case data of
        JDict kvs \<Rightarrow>
          (case (case map_of kvs ''categories'' of None \<Rightarrow> JDict [] | Some v \<Rightarrow> v) of
             JDict cats \<Rightarrow> sum_lens cats VALID_CATEGORIES
           | _ \<Rightarrow> Inl AttributeError)
      | _ \<Rightarrow> Inl AttributeError)"

text \<open>\<^verbatim>\<open>load_memory\<close> returns the parsed document as it is. The handler catches
  \<^verbatim>\<open>JSONDecodeError\<close> and \<^verbatim>\<open>KeyError\<close> and falls through to the empty structure; any
  other exception leaves the function.\<close>

definition load_memory :: "env \<Rightarrow> snapshot_file \<Rightarrow> (error + jv) \<times> log_line list" where
  "load_memory ev f =
     (let fresh = Inr (json_of_store (empty_memory ev));
          loading = (Info, ''Loading memory from file'');
          created_empty = (Info, ''No memory file found - creating empty structure.'');
          failed = (Warn, ''Error loading memory - creating fresh.'')
      in case f of
           Missing \<Rightarrow> (fresh, [loading, created_empty])
         | Unparsable \<Rightarrow> (fresh, [loading, failed, created_empty])
         | Json data \<Rightarrow>
             (case count_loaded data of
                Inr n \<Rightarrow> (Inr data, [loading, (Ok, ''Loaded active memory entries.'')])
              | Inl e \<Rightarrow>
                  if e = KeyError then (fresh, [loading, failed, created_empty])
                  else (Inl e, [loading])))"

definition save_memory :: "env \<Rightarrow> manager \<Rightarrow> manager" where
  "save_memory ev mgr =
     (let m = (memory mgr)\<lparr>last_updated := isoformat (now ev)\<rparr>
      in mgr\<lparr>memory := m,
             disk := Json (json_of_store m),
             logs := logs mgr @ [(Ok, ''Memory saved'')]\<rparr>)"

section \<open>Prompt injection\<close>

definition section_map :: "(string \<times> string) list" where
  "section_map =
     [(''owner_preferences'', ''PREFERENCES''),
      (''approved_decisions'', ''APPROVED''),
      (''rejected_ideas'', ''VETOED''),
      (''operational_notes'', ''OPS NOTES''),
      (''event_history'', ''PAST EVENTS'')]"

text \<open>The slice \<^verbatim>\<open>xs[-n:]\<close> for a positive \<open>n\<close>.\<close>

definition last_n :: "nat \<Rightarrow> 'a list \<Rightarrow> 'a list" where
  "last_n n xs = drop (length xs - n) xs"

definition header_line :: string where
  "header_line = CHR 0x0A # ''--- OWNER MEMORY (Key Insights from Past Interactions) ---''"

definition footer_line :: string where
  "footer_line = ''--- END OWNER MEMORY ---'' @ [CHR 0x0A]"

text \<open>The body of the loop over \<^verbatim>\<open>section_map.items()\<close>, on the accumulators
  \<^verbatim>\<open>lines\<close> and \<^verbatim>\<open>included\<close>.\<close>

definition render_category ::
  "(string \<times> entry list) list \<Rightarrow> string \<times> string \<Rightarrow> string list \<times> nat \<Rightarrow> string list \<times> nat" where
  "render_category cats item acc =
     (case (item, acc) of
        ((cat_key, label), (lines, included)) \<Rightarrow>
          (let entries = get_entries cats cat_key
           in if entries \<noteq> []
              then (let recent = last_n MAX_ENTRIES_PER_CATEGORY_IN_PROMPT entries
                    in (lines @ [''['' @ label @ '']''] @ map (\<lambda>entry. ''- '' @ content entry) recent,
                        included + length recent))
              else (lines, included)))"

definition get_memory_context :: "store \<Rightarrow> string \<times> log_line list" where
  "get_memory_context m =
     (let cats = categories m;
          total_entries = sum_list (map (\<lambda>c. length (get_entries cats c)) VALID_CATEGORIES)
      in if total_entries = 0 then ([], [(Info, ''No memory entries to inject.'')])
         else (let (lines, included) = fold (render_category cats) section_map ([header_line], 0)
               in (join [CHR 0x0A] (lines @ [footer_line]), [(Info, ''Memory context built'')])))"

section \<open>Extraction pipeline\<close>

text \<open>The clean-up of the service's text before \<^verbatim>\<open>json.loads\<close> (lines 229 to 237).\<close>

definition fence :: string where
  "fence = [CHR 0x60, CHR 0x60, CHR 0x60]"

definition strip_fences :: "string \<Rightarrow> string" where
  "strip_fences text =
     (let raw = strip text;
          raw = (if startswith raw fence
                 then (if CHR 0x0A \<in> set raw then tl (dropWhile (\<lambda>c. c \<noteq> CHR 0x0A) raw)
                       else drop 3 raw)
                 else raw);
          raw = (if endswith raw fence then strip (take (length raw - 3) raw) else raw);
          raw = (if startswith raw ''json'' then strip (drop 4 raw) else raw)
      in raw)"

text \<open>\<^verbatim>\<open>_call_extraction_llm\<close>. Every exception is caught: \<^verbatim>\<open>JSONDecodeError\<close> is logged
  as a warning, any other one (the call itself, \<^verbatim>\<open>None.strip()\<close>, \<^verbatim>\<open>len\<close> of a number)
  as an error; a parsed value that is not a list gives the empty list.\<close>

definition call_extraction_llm ::
  "env \<Rightarrow> string \<Rightarrow> string \<Rightarrow> string \<Rightarrow> jv list \<times> log_line list" where
  "call_extraction_llm ev user_message ai_response current_memory_summary =
     (let calling = (Info, ''Calling extraction LLM'');
          call_failed = (Err, ''Extraction LLM call failed'')
      in case generate_content ev current_memory_summary user_message (take 1500 ai_response) of
           Raises \<Rightarrow> ([], [calling, call_failed])
         | Text None \<Rightarrow> ([], [calling, call_failed])
         | Text (Some text) \<Rightarrow>
             (case json_loads ev (strip_fences text) of
                None \<Rightarrow>
                  ([], [calling, (Warn, ''Extraction LLM returned invalid JSON''),
                        (Warn, ''Raw response'')])
              | Some entries \<Rightarrow>
                  (case py_len entries of
                     Inl e \<Rightarrow> ([], [calling, call_failed])
                   | Inr n \<Rightarrow>
                       (case entries of JList es \<Rightarrow> es | _ \<Rightarrow> [],
                        [calling, (Info, ''Extraction returned candidate entries.'')]))))"

text \<open>The test of the validation loop (lines 153 to 156), with Python's short-circuit
  \<^verbatim>\<open>and\<close>: a dictionary, whose category is one of the valid ones, whose content is
  true, and \<^verbatim>\<open>len(entry["content"]) > 3\<close>.\<close>

definition is_valid :: "jv \<Rightarrow> error + bool" where
  "is_valid entry =
     (case entry of
        JDict kvs \<Rightarrow>
          if (case map_of kvs ''category'' of
                Some (JStr c) \<Rightarrow> c \<in> set VALID_CATEGORIES
              | _ \<Rightarrow> False)
          then (case map_of kvs ''content'' of
                  None \<Rightarrow> Inr False
                | Some v \<Rightarrow>
                    if truthy v
                    then (case py_len v of Inl e \<Rightarrow> Inl e | Inr n \<Rightarrow> Inr (n > 3))
                    else Inr False)
          else Inr False
      | _ \<Rightarrow> Inr False)"

fun validate :: "jv list \<Rightarrow> (error + jv list) \<times> log_line list" where
  "validate [] = (Inr [], [])"
| "validate (entry # new_entries) =
     (case is_valid entry of
        Inl e \<Rightarrow> (Inl e, [])
      | Inr True \<Rightarrow>
          (case validate new_entries of
             (Inl e, lg) \<Rightarrow> (Inl e, lg)
           | (Inr valid_entries, lg) \<Rightarrow> (Inr (entry # valid_entries), lg))
      | Inr False \<Rightarrow>
          (case validate new_entries of
             (r, lg) \<Rightarrow> (r, (Warn, ''Skipping invalid entry'') # lg)))"

section \<open>Deduplication and id generation\<close>

definition existing_contents :: "store \<Rightarrow> string set" where
  "existing_contents m =
     set (concat (map (\<lambda>cat. map (\<lambda>entry. normalize_text (content entry))
                               (get_entries (categories m) cat))
                      VALID_CATEGORIES))"

text \<open>\<^verbatim>\<open>entry["content"].lower()\<close>: the key must exist and its value be a string.\<close>

definition content_str :: "jv \<Rightarrow> error + string" where
  "content_str entry =
     (case entry of
        JDict kvs \<Rightarrow>
          (case map_of kvs ''content'' of
             None \<Rightarrow> Inl KeyError
           | Some (JStr s) \<Rightarrow> Inr s
           | Some _ \<Rightarrow> Inl AttributeError)
      | _ \<Rightarrow> Inl TypeError)"

fun dedup_loop :: "jv list \<Rightarrow> string set \<Rightarrow> (error + jv list) \<times> log_line list" where
  "dedup_loop [] existing = (Inr [], [])"
| "dedup_loop (entry # new_entries) existing =
     (case content_str entry of
        Inl e \<Rightarrow> (Inl e, [])
      | Inr c \<Rightarrow>
          (let normalized = normalize_text c
           in if normalized \<notin> existing
              then (case dedup_loop new_entries (insert normalized existing) of
                      (Inl e, lg) \<Rightarrow> (Inl e, lg)
                    | (Inr unique, lg) \<Rightarrow> (Inr (entry # unique), lg))
              else (case dedup_loop new_entries existing of
                      (r, lg) \<Rightarrow> (r, (Info, ''Dedup: skipping'') # lg))))"

definition deduplicate :: "store \<Rightarrow> jv list \<Rightarrow> (error + jv list) \<times> log_line list" where
  "deduplicate m new_entries = dedup_loop new_entries (existing_contents m)"

definition prefix_map :: "(string \<times> string) list" where
  "prefix_map =
     [(''owner_preferences'', ''pref''),
      (''approved_decisions'', ''dec''),
      (''rejected_ideas'', ''rej''),
      (''operational_notes'', ''ops''),
      (''event_history'', ''evt'')]"

definition generate_id :: "store \<Rightarrow> string \<Rightarrow> string" where
  "generate_id m category =
     (let prefix = (case map_of prefix_map category of None \<Rightarrow> ''mem'' | Some p \<Rightarrow> p);
          existing = length (get_entries (categories m) category);
          archived = length (filter (\<lambda>e. original_category e = Some category) (archive m))
      in prefix @ ''_'' @ zfill 3 (dec (existing + archived + 1)))"

text \<open>The dictionary \<^verbatim>\<open>mem_entry\<close> (lines 173 to 179) for a candidate with the items
  \<open>kvs\<close>, of category \<open>cat\<close> and content \<open>c\<close>.\<close>

definition mem_entry ::
  "store \<Rightarrow> (string \<times> jv) list \<Rightarrow> string \<Rightarrow> string \<Rightarrow> string \<Rightarrow> string \<Rightarrow> entry" where
  "mem_entry m kvs cat c source now_iso =
     \<lparr>entry_id = generate_id m cat,
      content = c,
      source_agent = source,
      created = Some now_iso,
      confidence = (case map_of kvs ''confidence'' of None \<Rightarrow> JStr ''medium'' | Some v \<Rightarrow> v)\<rparr>"

text \<open>The body of the commit loop (lines 172 to 181) for one entry.
  \<^verbatim>\<open>self.memory["categories"][cat]\<close> raises \<^verbatim>\<open>KeyError\<close> for a category the store does
  not hold. An entry that passed validation and deduplication has a string category and
  a string content; the other branches stand for the exceptions Python would raise
  there.\<close>

definition store_entry :: "jv \<Rightarrow> string \<Rightarrow> string \<Rightarrow> store \<Rightarrow> error + store" where
  "store_entry entry source now_iso m =
     (case entry of
        JDict kvs \<Rightarrow>
          (case (map_of kvs ''category'', map_of kvs ''content'') of
             (Some (JStr cat), Some (JStr c)) \<Rightarrow>
               (case map_of (categories m) cat of
                  None \<Rightarrow> Inl KeyError
                | Some es \<Rightarrow>
                    Inr (m\<lparr>categories :=
                           AList.update cat (es @ [mem_entry m kvs cat c source now_iso])
                             (categories m)\<rparr>))
           | (None, _) \<Rightarrow> Inl KeyError
           | (_, None) \<Rightarrow> Inl KeyError
           | _ \<Rightarrow> Inl TypeError)
      | _ \<Rightarrow> Inl TypeError)"

text \<open>The commit loop (lines 171 to 181); what was appended before an exception
  stays.\<close>

fun store_entries ::
  "jv list \<Rightarrow> string \<Rightarrow> string \<Rightarrow> store \<Rightarrow> error option \<times> store \<times> log_line list" where
  "store_entries [] source now_iso m = (None, m, [])"
| "store_entries (entry # unique_entries) source now_iso m =
     (case store_entry entry source now_iso m of
        Inl e \<Rightarrow> (Some e, m, [])
      | Inr m2 \<Rightarrow>
          (case store_entries unique_entries source now_iso m2 of
             (r, m', lg) \<Rightarrow> (r, m', (Ok, ''Stored'') # lg)))"

section \<open>Pruning\<close>

definition get_created :: "entry \<Rightarrow> string" where
  "get_created e = (case created e of None \<Rightarrow> [] | Some c \<Rightarrow> c)"

definition archived_copy :: "entry \<Rightarrow> string \<Rightarrow> string \<Rightarrow> archived_entry" where
  "archived_copy e cat now_iso =
     \<lparr>entry_id = entry_id e, content = content e, source_agent = source_agent e,
      created = created e, confidence = confidence e,
      original_category = Some cat, archived_on = now_iso\<rparr>"

text \<open>The inner loop of \<^verbatim>\<open>prune_old_entries\<close> over the entries of one category, on
  the accumulators \<^verbatim>\<open>keep\<close>, \<^verbatim>\<open>self.memory["archive"]\<close> and \<^verbatim>\<open>pruned_count\<close>.\<close>

fun prune_entries ::
  "string \<Rightarrow> string \<Rightarrow> string \<Rightarrow> entry list \<Rightarrow> entry list \<times> archived_entry list \<times> nat
     \<Rightarrow> entry list \<times> archived_entry list \<times> nat" where
  "prune_entries cutoff now_iso cat [] acc = acc"
| "prune_entries cutoff now_iso cat (e # entries) (keep, arch, pruned_count) =
     (if get_created e < cutoff
      then prune_entries cutoff now_iso cat entries
             (keep, arch @ [archived_copy e cat now_iso], pruned_count + 1)
      else prune_entries cutoff now_iso cat entries (keep @ [e], arch, pruned_count))"

text \<open>The body of the outer loop, for one category.\<close>

definition prune_category :: "string \<Rightarrow> string \<Rightarrow> string \<Rightarrow> store \<times> nat \<Rightarrow> store \<times> nat" where
  "prune_category cutoff now_iso cat acc =
     (case acc of
        (m, pruned_count) \<Rightarrow>
          (case prune_entries cutoff now_iso cat (get_entries (categories m) cat)
                  ([], archive m, pruned_count) of
             (keep, arch, pruned_count') \<Rightarrow>
               (m\<lparr>archive := arch, categories := AList.update cat keep (categories m)\<rparr>,
                pruned_count')))"

definition prune_old_entries :: "env \<Rightarrow> int \<Rightarrow> manager \<Rightarrow> nat \<times> manager" where
  "prune_old_entries ev max_age_days mgr =
     (let cutoff = isoformat (days_ago ev max_age_days)
      in case fold (prune_category cutoff (isoformat (now ev))) VALID_CATEGORIES (memory mgr, 0) of
           (m, pruned_count) \<Rightarrow>
             (pruned_count,
              mgr\<lparr>memory := m,
                  logs := logs mgr @ replicate pruned_count (Info, ''Archived old entry'')
                          @ (if pruned_count > 0 then [(Ok, ''Pruned entries to archive.'')] else [])\<rparr>))"

section \<open>The pipeline\<close>

definition add_logs :: "log_line list \<Rightarrow> manager \<Rightarrow> manager" where
  "add_logs lg mgr = mgr\<lparr>logs := logs mgr @ lg\<rparr>"

text \<open>\<^verbatim>\<open>extract_and_store\<close>: the result is the exception that leaves the call, if any,
  and the manager as the call left it. The function is modelled in three parts:
  \<open>commit_entries\<close> is its end (lines 168 to 188: store, save, prune and save again),
  \<open>store_new_entries\<close> is all that follows the call of the service (lines 146 to 188).\<close>

definition commit_entries ::
  "env \<Rightarrow> string \<Rightarrow> jv list \<Rightarrow> manager \<Rightarrow> error option \<times> manager" where
  "commit_entries ev agent unique_entries mgr =
     (case store_entries unique_entries agent (isoformat (now ev)) (memory mgr) of
        (Some e, m, lg) \<Rightarrow> (Some e, add_logs lg (mgr\<lparr>memory := m\<rparr>))
      | (None, m, lg) \<Rightarrow>
          (case prune_old_entries ev 180 (save_memory ev (add_logs lg (mgr\<lparr>memory := m\<rparr>))) of
             (pruned, mgr') \<Rightarrow>
               if pruned > 0 then (None, save_memory ev mgr') else (None, mgr')))"

definition store_new_entries ::
  "env \<Rightarrow> string \<Rightarrow> jv list \<Rightarrow> manager \<Rightarrow> error option \<times> manager" where
  "store_new_entries ev agent new_entries mgr =
     (if new_entries = [] then (None, add_logs [(Info, ''No new insights extracted.'')] mgr)
      else
     (case validate new_entries of
        (Inl e, lg3) \<Rightarrow> (Some e, add_logs lg3 mgr)
      | (Inr valid_entries, lg3) \<Rightarrow>
     (case deduplicate (memory mgr) valid_entries of
        (Inl e, lg4) \<Rightarrow> (Some e, add_logs (lg3 @ lg4) mgr)
      | (Inr unique_entries, lg4) \<Rightarrow>
          if unique_entries = []
          then (None, add_logs (lg3 @ lg4 @ [(Info, ''All extracted entries were duplicates.'')]) mgr)
          else commit_entries ev agent unique_entries (add_logs (lg3 @ lg4) mgr))))"

definition extract_and_store ::
  "env \<Rightarrow> string \<Rightarrow> string \<Rightarrow> string \<Rightarrow> manager \<Rightarrow> error option \<times> manager" where
  "extract_and_store ev user_message ai_response agent mgr =
     (case get_memory_context (memory mgr) of
        (current_summary, lg1) \<Rightarrow>
     (case call_extraction_llm ev user_message ai_response current_summary of
        (new_entries, lg2) \<Rightarrow>
          store_new_entries ev agent new_entries
            (add_logs ([(Info, ''Starting extraction'')] @ lg1 @ lg2) mgr)))"

section \<open>Histories of calls\<close>

text \<open>The two operations that change the store, each with the environment of its call,
  and a manager driven through a list of them from the empty store.\<close>

datatype call =
    Extract env string string string
  | Prune env int

fun apply_call :: "call \<Rightarrow> manager \<Rightarrow> manager" where
  "apply_call (Extract ev user_message ai_response agent) mgr =
     snd (extract_and_store ev user_message ai_response agent mgr)"
| "apply_call (Prune ev max_age_days) mgr = snd (prune_old_entries ev max_age_days mgr)"

definition fresh_manager :: "env \<Rightarrow> manager" where
  "fresh_manager ev = \<lparr>memory = empty_memory ev, disk = Missing, logs = []\<rparr>"

definition run :: "env \<Rightarrow> call list \<Rightarrow> manager" where
  "run ev calls = fold apply_call calls (fresh_manager ev)"

section \<open>Notions used in the statements\<close>

text \<open>The entries of a category that the test of line 302,
  \<^verbatim>\<open>entry.get("created", "") < cutoff\<close>, selects, and those it does not.\<close>

definition old_entries :: "string \<Rightarrow> store \<Rightarrow> string \<Rightarrow> entry list" where
  "old_entries cutoff m cat =
     filter (\<lambda>e. get_created e < cutoff) (get_entries (categories m) cat)"

definition kept_entries :: "string \<Rightarrow> store \<Rightarrow> string \<Rightarrow> entry list" where
  "kept_entries cutoff m cat =
     filter (\<lambda>e. \<not> get_created e < cutoff) (get_entries (categories m) cat)"

text \<open>The ways the extraction service can fail to deliver a list of candidates: the call
  raises, the response has no text, the text is not JSON, or the JSON value is not a
  list. Of these, a JSON string or object is the case that \<^verbatim>\<open>_call_extraction_llm\<close>
  reports at level info only.\<close>

definition service_failed :: "env \<Rightarrow> string \<Rightarrow> string \<Rightarrow> string \<Rightarrow> bool" where
  "service_failed ev summary user_message ai_response =
     (case generate_content ev summary user_message (take 1500 ai_response) of
        Raises \<Rightarrow> True
      | Text None \<Rightarrow> True
      | Text (Some t) \<Rightarrow>
          (case json_loads ev (strip_fences t) of
             None \<Rightarrow> True
           | Some (JList es) \<Rightarrow> False
           | Some v \<Rightarrow> True))"

definition string_or_object_payload :: "env \<Rightarrow> string \<Rightarrow> string \<Rightarrow> string \<Rightarrow> bool" where
  "string_or_object_payload ev summary user_message ai_response =
     (case generate_content ev summary user_message (take 1500 ai_response) of
        Text (Some t) \<Rightarrow>
          (case json_loads ev (strip_fences t) of
             Some (JStr s) \<Rightarrow> True
           | Some (JDict kvs) \<Rightarrow> True
           | _ \<Rightarrow> False)
      | _ \<Rightarrow> False)"

text \<open>The lines a call added to the log, and whether one of them is a warning or an
  error.\<close>

definition new_logs :: "manager \<Rightarrow> manager \<Rightarrow> log_line list" where
  "new_logs before after = drop (length (logs before)) (logs after)"

definition failure_logged :: "log_line list \<Rightarrow> bool" where
  "failure_logged lg = (Warn \<in> fst ` set lg \<or> Err \<in> fst ` set lg)"

text \<open>What a call returns and what it leaves in memory and on disk, the log aside.\<close>

definition effect :: "error option \<times> manager \<Rightarrow> error option \<times> store \<times> snapshot_file" where
  "effect r = (fst r, memory (snd r), disk (snd r))"

text \<open>What validation and deduplication leave of a batch of candidates.\<close>

definition unique_of :: "store \<Rightarrow> jv list \<Rightarrow> error + jv list" where
  "unique_of m new_entries =
     (case fst (validate new_entries) of
        Inl e \<Rightarrow> Inl e
      | Inr valid_entries \<Rightarrow> fst (deduplicate m valid_entries))"

text \<open>The active entries of a store, the candidates whose content normalises to the
  content of an active entry, and the stores that hold the five categories.\<close>

definition active_entries :: "store \<Rightarrow> entry list" where
  "active_entries m = concat (map (get_entries (categories m)) VALID_CATEGORIES)"

definition is_duplicate :: "store \<Rightarrow> jv \<Rightarrow> bool" where
  "is_duplicate m c =
     (case content_str c of
        Inr t \<Rightarrow> normalize_text t \<in> normalize_text ` content ` set (active_entries m)
      | Inl e \<Rightarrow> False)"

definition has_categories :: "store \<Rightarrow> bool" where
  "has_categories m = list_all (\<lambda>c. map_of (categories m) c \<noteq> None) VALID_CATEGORIES"

text \<open>A call of \<^verbatim>\<open>extract_and_store\<close> for which the service returns only candidates that
  duplicate active entries of the store \<open>m\<close>.\<close>

definition duplicate_call :: "store \<Rightarrow> call \<Rightarrow> bool" where
  "duplicate_call m c =
     (case c of
        Extract ev user_message ai_response agent \<Rightarrow>
          list_all (is_duplicate m)
            (fst (call_extraction_llm ev user_message ai_response (fst (get_memory_context m))))
      | Prune ev max_age_days \<Rightarrow> False)"

text \<open>The acceptance test as the specification words it: the category is one of the five
  tags and the content, after trimming, is longer than 3 characters.\<close>

definition valid_by_spec :: "jv \<Rightarrow> bool" where
  "valid_by_spec c =
     (case c of
        JDict kvs \<Rightarrow>
          map_of kvs ''category'' \<in> Some ` JStr ` set VALID_CATEGORIES
          \<and> (case map_of kvs ''content'' of
                Some (JStr t) \<Rightarrow> 3 < length (strip t)
              | _ \<Rightarrow> False)
      | _ \<Rightarrow> False)"

text \<open>The entry that the commit loop builds for a candidate with the items \<open>kvs\<close>,
  whatever its id: its content is the candidate's, its confidence the candidate's or
  \<^verbatim>\<open>"medium"\<close>.\<close>

definition stored_as :: "(string \<times> jv) list \<Rightarrow> string \<Rightarrow> string \<Rightarrow> entry \<Rightarrow> bool" where
  "stored_as kvs agent now_iso e =
     (map_of kvs ''content'' = Some (JStr (content e))
      \<and> source_agent e = agent
      \<and> created e = Some now_iso
      \<and> confidence e = (case map_of kvs ''confidence'' of None \<Rightarrow> JStr ''medium'' | Some v \<Rightarrow> v))"

text \<open>The shape of an entry that passed validation and deduplication.\<close>

definition well_shaped :: "jv \<Rightarrow> bool" where
  "well_shaped u = (\<exists>kvs cat t. u = JDict kvs \<and> map_of kvs ''category'' = Some (JStr cat)
     \<and> cat \<in> set VALID_CATEGORIES \<and> map_of kvs ''content'' = Some (JStr t))"

text \<open>The id \<^verbatim>\<open><category-prefix>_<sequence>\<close> with the sequence number \<open>k\<close>, the ids of the
  entries that belong to a category (active, then archived with that original category),
  and the stores whose ids are, category by category, the ids numbered from 1 to the
  count of the category's entries. \<open>decimal_value\<close> reads a decimal numeral.\<close>

definition id_for :: "string \<Rightarrow> nat \<Rightarrow> string" where
  "id_for category k =
     (case map_of prefix_map category of None \<Rightarrow> ''mem'' | Some p \<Rightarrow> p)
     @ ''_'' @ zfill 3 (dec k)"

definition ids_of :: "store \<Rightarrow> string \<Rightarrow> string list" where
  "ids_of m cat =
     map entry_id (get_entries (categories m) cat)
     @ map entry_id (filter (\<lambda>a. original_category a = Some cat) (archive m))"

definition numbered :: "store \<Rightarrow> bool" where
  "numbered m =
     (\<forall>cat. mset (ids_of m cat) = mset (map (id_for cat) [1..<Suc (length (ids_of m cat))]))"

definition decimal_value :: "string \<Rightarrow> nat" where
  "decimal_value s = foldl (\<lambda>n c. 10 * n + (of_char c - 48)) 0 s"

text \<open>The rendering as the specification words it: the \<open>n\<close> most recently appended
  entries of a list, oldest first, and the lines of one category: nothing for a category
  without entries, else the label in brackets and one line for each of the five most
  recent entries.\<close>

definition most_recent :: "nat \<Rightarrow> 'a list \<Rightarrow> 'a list" where
  "most_recent n xs = rev (take n (rev xs))"

definition rendered_section :: "(string \<times> entry list) list \<Rightarrow> string \<times> string \<Rightarrow> string list" where
  "rendered_section cats item =
     (case item of
        (cat_key, label) \<Rightarrow>
          if get_entries cats cat_key = [] then []
          else (''['' @ label @ '']'')
               # map (\<lambda>e. ''- '' @ content e) (most_recent 5 (get_entries cats cat_key)))"

definition total_active :: "store \<Rightarrow> nat" where
  "total_active m = sum_list (map (\<lambda>c. length (get_entries (categories m) c)) VALID_CATEGORIES)"

section \<open>Sample values\<close>

text \<open>A clock at 2026-11-04 09:05, 180 days after 2026-05-08 09:05, with a service
  that gives a fixed reply and a parser that gives a fixed result.\<close>

definition sample_now :: datetime where
  "sample_now =
     \<lparr>year = 2026, month = 11, day = 4, hour = 9, minute = 5, second = 0, microsecond = 0\<rparr>"

definition sample_cutoff :: datetime where
  "sample_cutoff =
     \<lparr>year = 2026, month = 5, day = 8, hour = 9, minute = 5, second = 0, microsecond = 0\<rparr>"

definition sample_env :: "llm_reply \<Rightarrow> jv option \<Rightarrow> env" where
  "sample_env reply parsed =
     \<lparr>now = sample_now, days_ago = (\<lambda>d. sample_cutoff),
      generate_content = (\<lambda>summary user_message ai_response. reply),
      json_loads = (\<lambda>raw. parsed)\<rparr>"

definition sample_entry :: "string \<Rightarrow> string \<Rightarrow> string option \<Rightarrow> entry" where
  "sample_entry i t c =
     \<lparr>entry_id = i, content = t, source_agent = ''party_planner'', created = c,
      confidence = JStr ''high''\<rparr>"

definition sample_store :: "entry list \<Rightarrow> entry list \<Rightarrow> store" where
  "sample_store prefs events =
     \<lparr>version = 1, last_updated = ''2026-10-01T10:00:00'',
      categories =
        [(''owner_preferences'', prefs), (''approved_decisions'', []), (''rejected_ideas'', []),
         (''operational_notes'', []), (''event_history'', events)],
      archive = []\<rparr>"

definition undated_manager :: manager where
  "undated_manager =
     \<lparr>memory = sample_store []
        [sample_entry ''evt_001'' ''Trivia night drew forty guests'' None,
         sample_entry ''evt_002'' ''Jazz brunch sold out'' (Some ''2026-10-01T10:00:00'')],
      disk = Missing, logs = []\<rparr>"

text \<open>An environment whose service answers with one JSON object instead of a list.\<close>

definition object_reply_env :: env where
  "object_reply_env =
     sample_env (Text (Some ''{...}''))
       (Some (JDict [(''category'', JStr ''event_history''),
                     (''content'', JStr ''Jazz brunch sold out'')]))"

text \<open>A store that holds the preference of scenario 3, a candidate of another category
  that normalises to it, a novel candidate, and the service that returns the duplicate.\<close>

definition beer_manager :: manager where
  "beer_manager =
     \<lparr>memory = sample_store
        [sample_entry ''pref_001'' ''Prefers craft beer over imports'' (Some ''2026-10-01T10:00:00'')]
        [],
      disk = Missing, logs = []\<rparr>"

definition beer_candidate :: jv where
  "beer_candidate =
     JDict [(''category'', JStr ''approved_decisions''),
            (''content'', JStr ''  PREFERS craft beer over imports...'')]"

definition patio_candidate :: jv where
  "patio_candidate =
     JDict [(''category'', JStr ''operational_notes''),
            (''content'', JStr ''Patio heaters need propane by Friday'')]"

definition beer_env :: env where
  "beer_env = sample_env (Text (Some ''[{...}]'')) (Some (JList [beer_candidate]))"

text \<open>A candidate whose content is longer than 3 characters only with its trailing
  blanks, and one whose content is a number.\<close>

definition padded_candidate :: jv where
  "padded_candidate =
     JDict [(''category'', JStr ''event_history''), (''content'', JStr ''ok  '')]"

definition numeric_candidate :: jv where
  "numeric_candidate =
     JDict [(''category'', JStr ''event_history''), (''content'', JNum 12345)]"

text \<open>A history in which an entry is stored, archived by a prune whose cutoff lies in the
  future, and a second entry of the same category is stored.\<close>

definition ice_candidate :: jv where
  "ice_candidate =
     JDict [(''category'', JStr ''operational_notes''),
            (''content'', JStr ''Ice machine is serviced monthly''),
            (''confidence'', JStr ''high'')]"

definition future_cutoff_env :: env where
  "future_cutoff_env = (sample_env Raises None)\<lparr>days_ago := (\<lambda>d. sample_now\<lparr>year := 2027\<rparr>)\<rparr>"

definition sample_history :: "call list" where
  "sample_history =
     [Extract (sample_env (Text (Some ''[{...}]'')) (Some (JList [patio_candidate])))
        ''Heaters?'' ''Noted.'' ''daily_briefing'',
      Prune future_cutoff_env (- 365),
      Extract (sample_env (Text (Some ''[{...}]'')) (Some (JList [ice_candidate])))
        ''Ice?'' ''Noted.'' ''daily_briefing'']"

text \<open>A manager with one event created 200 days before the sample clock and one created
  34 days before it.\<close>

definition aged_manager :: manager where
  "aged_manager =
     \<lparr>memory = sample_store []
        [sample_entry ''evt_001'' ''Spring tasting sold 60 tickets'' (Some ''2026-04-18T09:05:00''),
         sample_entry ''evt_002'' ''Jazz brunch sold out'' (Some ''2026-10-01T10:00:00'')],
      disk = Missing, logs = []\<rparr>"

chapter \<open>Properties\<close>

section \<open>The normalisation key\<close>

lemma endswith_single: "endswith t [c] = (t \<noteq> [] \<and> last t = c)"
  by (cases t rule: rev_cases) (simp_all add: endswith_def)

lemma rstrip_chars_decomp:
  "\<exists>k. s = rstrip_chars s [c] @ replicate k c"
proof -
  let ?t = "takeWhile (\<lambda>x. x = c) (rev s)"
  let ?d = "dropWhile (\<lambda>x. x = c) (rev s)"
  have "\<forall>y\<in>set ?t. y = c"
    by (auto dest: set_takeWhileD)
  then have "replicate (length ?t) c = ?t"
    by (rule replicate_length_same)
  then have "rev ?t = rev (replicate (length ?t) c)"
    by simp
  then have "rev ?t = replicate (length ?t) c"
    by (simp only: rev_replicate)
  moreover have "rev (rev s) = rev (?t @ ?d)"
    by (simp only: takeWhile_dropWhile_id)
  then have "s = rev ?d @ rev ?t"
    by (simp only: rev_append rev_rev_ident)
  ultimately have "s = rstrip_chars s [c] @ replicate (length ?t) c"
    by (simp add: rstrip_chars_def)
  then show ?thesis ..
qed

lemma rstrip_chars_not_endswith:
  "\<not> endswith (rstrip_chars s [c]) [c]"
proof
  assume e: "endswith (rstrip_chars s [c]) [c]"
  let ?d = "dropWhile (\<lambda>x. x = c) (rev s)"
  from e have ne: "?d \<noteq> []" and l: "last (rev ?d) = c"
    by (simp_all add: endswith_single rstrip_chars_def)
  from ne l have "hd ?d = c"
    by (simp add: last_rev)
  with ne show False
    using hd_dropWhile [of "\<lambda>x. x = c" "rev s"] by simp
qed

text \<open>
  C4 (as amended). The key of the deduplication is the lowercased, trimmed string with
  \<^emph>\<open>all\<close> its trailing periods stripped: the trimmed string is the key followed by
  periods only, and the key does not end with a period.
\<close>

theorem normalize_strips_all_periods:
  "(\<exists>k. strip (lower s) = normalize_text s @ replicate k (CHR ''.''))
   \<and> \<not> endswith (normalize_text s) ''.''"
  unfolding normalize_text_def
  using rstrip_chars_decomp [of "strip (lower s)" "CHR ''.''"]
    rstrip_chars_not_endswith [of "strip (lower s)" "CHR ''.''"]
  by simp

text \<open>
  C4 (as stated) fails: of two trailing periods the code strips both, where the
  specification's key keeps one.
\<close>

theorem normalize_two_periods_counterexample:
  "normalize_text '' Craft Beer..'' = ''craft beer''
   \<and> normalize_spec '' Craft Beer..'' = ''craft beer.''"
  by code_simp

section \<open>Pruning\<close>

lemma get_entries_update:
  "get_entries (AList.update c v cats) c' = (if c' = c then v else get_entries cats c')"
  by (simp add: get_entries_def update_conv')

lemma prune_entries_eq:
  "prune_entries cutoff t cat es (keep, arch, n) =
     (keep @ filter (\<lambda>e. \<not> get_created e < cutoff) es,
      arch @ map (\<lambda>e. archived_copy e cat t) (filter (\<lambda>e. get_created e < cutoff) es),
      n + length (filter (\<lambda>e. get_created e < cutoff) es))"
  by (induction es arbitrary: keep arch n) simp_all

lemma prune_category_eq:
  "prune_category cutoff t cat (m, n) =
     (m\<lparr>archive := archive m @ map (\<lambda>e. archived_copy e cat t) (old_entries cutoff m cat),
        categories := AList.update cat (kept_entries cutoff m cat) (categories m)\<rparr>,
      n + length (old_entries cutoff m cat))"
  by (simp add: prune_category_def prune_entries_eq old_entries_def kept_entries_def)

lemma old_entries_after:
  "c \<noteq> cat \<Longrightarrow>
   old_entries cutoff (m\<lparr>archive := a, categories := AList.update cat k (categories m)\<rparr>) c
     = old_entries cutoff m c"
  by (simp add: old_entries_def get_entries_update)

lemma fold_prune_category:
  assumes "distinct cs"
  shows "fold (prune_category cutoff t) cs (m, n) = (m', n') \<Longrightarrow>
     (\<forall>c. get_entries (categories m') c =
            (if c \<in> set cs then kept_entries cutoff m c else get_entries (categories m) c))
     \<and> archive m' = archive m
          @ concat (map (\<lambda>c. map (\<lambda>e. archived_copy e c t) (old_entries cutoff m c)) cs)
     \<and> n' = n + length (concat (map (old_entries cutoff m) cs))
     \<and> version m' = version m \<and> last_updated m' = last_updated m"
  using assms
proof (induction cs arbitrary: m n)
  case Nil
  then show ?case by simp
next
  case (Cons c cs)
  let ?m1 = "m\<lparr>archive := archive m @ map (\<lambda>e. archived_copy e c t) (old_entries cutoff m c),
        categories := AList.update c (kept_entries cutoff m c) (categories m)\<rparr>"
  from Cons.prems have f: "fold (prune_category cutoff t) cs (?m1, n + length (old_entries cutoff m c)) = (m', n')"
    by (simp add: prune_category_eq)
  from Cons.prems have d: "distinct cs" and nin: "c \<notin> set cs" by simp_all
  note ih = Cons.IH [OF f d]
  have same: "\<And>c'. c' \<in> set cs \<Longrightarrow> old_entries cutoff ?m1 c' = old_entries cutoff m c'"
    using nin by (auto simp: old_entries_def get_entries_update)
  have samek: "\<And>c'. c' \<in> set cs \<Longrightarrow> kept_entries cutoff ?m1 c' = kept_entries cutoff m c'"
    using nin by (auto simp: kept_entries_def get_entries_update)
  have m1: "map (\<lambda>c. map (\<lambda>e. archived_copy e c t) (old_entries cutoff ?m1 c)) cs
      = map (\<lambda>c. map (\<lambda>e. archived_copy e c t) (old_entries cutoff m c)) cs"
    using same by (intro map_cong) simp_all
  have m2: "map (old_entries cutoff ?m1) cs = map (old_entries cutoff m) cs"
    using same by (intro map_cong) simp_all
  have g: "\<forall>c'. get_entries (categories m') c' =
            (if c' \<in> set (c # cs) then kept_entries cutoff m c' else get_entries (categories m) c')"
  proof
    fix c'
    show "get_entries (categories m') c' =
            (if c' \<in> set (c # cs) then kept_entries cutoff m c' else get_entries (categories m) c')"
      using ih samek [of c'] nin
      by (auto simp: get_entries_update)
  qed
  have a: "archive m' = archive m
          @ concat (map (\<lambda>c. map (\<lambda>e. archived_copy e c t) (old_entries cutoff m c)) (c # cs))"
    using ih m1 by simp
  have k: "n' = n + length (concat (map (old_entries cutoff m) (c # cs)))"
    using ih m2 by simp
  have v: "version m' = version m \<and> last_updated m' = last_updated m"
    using ih by simp
  from g a k v show ?case by blast
qed


lemma distinct_VALID_CATEGORIES: "distinct VALID_CATEGORIES"
  by (simp add: VALID_CATEGORIES_def)



text \<open>An example: of two events, the one created 200 days before the call is moved to
  the archive, once.\<close>

lemma prune_old_entries_example:
  "fst (prune_old_entries (sample_env Raises None) 180 aged_manager) = 1
   \<and> get_entries (categories (memory (snd (prune_old_entries (sample_env Raises None) 180
         aged_manager)))) ''event_history''
       = [sample_entry ''evt_002'' ''Jazz brunch sold out'' (Some ''2026-10-01T10:00:00'')]
   \<and> archive (memory (snd (prune_old_entries (sample_env Raises None) 180 aged_manager)))
       = [archived_copy
            (sample_entry ''evt_001'' ''Spring tasting sold 60 tickets''
               (Some ''2026-04-18T09:05:00''))
            ''event_history'' ''2026-11-04T09:05:00'']
   \<and> fst (prune_old_entries (sample_env Raises None) 180
         (snd (prune_old_entries (sample_env Raises None) 180 aged_manager))) = 0"
  by code_simp






section \<open>Prompt injection\<close>

lemma last_n_most_recent: "last_n n xs = most_recent n xs"
  by (simp add: last_n_def most_recent_def rev_take)

lemma most_recent_Nil: "most_recent n [] = []"
  by (simp add: most_recent_def)

lemma render_category_eq:
  "render_category cats item (lines, included) =
     (lines @ rendered_section cats item,
      included + length (most_recent 5 (get_entries cats (fst item))))"
  by (cases item)
    (simp add: render_category_def rendered_section_def last_n_most_recent
      MAX_ENTRIES_PER_CATEGORY_IN_PROMPT_def Let_def most_recent_Nil)

lemma fold_render_category:
  "fst (fold (render_category cats) items (lines, included))
     = lines @ concat (map (rendered_section cats) items)"
  by (induction items arbitrary: lines included) (simp_all add: render_category_eq)

lemma join_Cons_nonempty: "x \<noteq> [] \<Longrightarrow> join sep (x # xs) \<noteq> []"
  by (cases xs) simp_all

text \<open>
  C6. The rendered context is the empty string exactly when the five categories hold no
  entry. Otherwise it is, joined by newlines, the header line, then for each of the five
  categories in the declared order (owner_preferences, approved_decisions,
  rejected_ideas, operational_notes, event_history) that holds an entry its label
  (PREFERENCES, APPROVED, VETOED, OPS NOTES, PAST EVENTS) in brackets followed by one
  line for each of its at most five most recent entries, oldest first, then the footer
  line. The most recent five are a suffix of the category's list; of seven entries the
  last five are rendered.
\<close>

theorem get_memory_context_renders:
  "fst (get_memory_context m) =
     (if total_active m = 0 then []
      else join [CHR 0x0A]
             (header_line # concat (map (rendered_section (categories m)) section_map)
              @ [footer_line]))
   \<and> (fst (get_memory_context m) = [] \<longleftrightarrow> total_active m = 0)
   \<and> section_map = zip VALID_CATEGORIES
        [''PREFERENCES'', ''APPROVED'', ''VETOED'', ''OPS NOTES'', ''PAST EVENTS'']
   \<and> length (most_recent 5 xs) = min 5 (length xs)
   \<and> (\<exists>older. xs = older @ most_recent 5 xs)
   \<and> rendered_section [(cat, [e1, e2, e3, e4, e5, e6, e7])] (cat, label)
        = [''['' @ label @ '']'', ''- '' @ content e3, ''- '' @ content e4, ''- '' @ content e5,
           ''- '' @ content e6, ''- '' @ content e7]"
proof -
  have 1: "fst (get_memory_context m) =
     (if total_active m = 0 then []
      else join [CHR 0x0A]
             (header_line # concat (map (rendered_section (categories m)) section_map)
              @ [footer_line]))"
  proof -
    obtain lines included where
      f: "fold (render_category (categories m)) section_map ([header_line], 0) = (lines, included)"
      by (cases "fold (render_category (categories m)) section_map ([header_line], 0)")
    with fold_render_category [of "categories m" section_map "[header_line]" 0]
    have "lines = header_line # concat (map (rendered_section (categories m)) section_map)"
      by simp
    with f show ?thesis
      by (simp add: get_memory_context_def total_active_def Let_def)
  qed
  have "header_line \<noteq> []"
    by (simp add: header_line_def)
  then have 2: "fst (get_memory_context m) = [] \<longleftrightarrow> total_active m = 0"
    using 1 by (simp add: join_Cons_nonempty)
  have 3: "section_map = zip VALID_CATEGORIES
        [''PREFERENCES'', ''APPROVED'', ''VETOED'', ''OPS NOTES'', ''PAST EVENTS'']"
    by (simp add: section_map_def VALID_CATEGORIES_def)
  have 4: "length (most_recent 5 xs) = min 5 (length xs)"
    by (simp add: most_recent_def)
  have "xs = take (length xs - 5) xs @ most_recent 5 xs"
    by (simp add: most_recent_def rev_take)
  then have 5: "\<exists>older. xs = older @ most_recent 5 xs" ..
  have 6: "rendered_section [(cat, [e1, e2, e3, e4, e5, e6, e7])] (cat, label)
        = [''['' @ label @ '']'', ''- '' @ content e3, ''- '' @ content e4, ''- '' @ content e5,
           ''- '' @ content e6, ''- '' @ content e7]"
    by (simp add: rendered_section_def get_entries_def most_recent_def)
  from 1 2 3 4 5 6 show ?thesis by blast
qed

section \<open>Persistence\<close>

lemma sum_lens_json:
  "sum_lens (map (\<lambda>(cat, es). (cat, JList (map json_of_entry es))) cats) cs
     = Inr (sum_list (map (\<lambda>c. length (get_entries cats c)) cs))"
  by (induction cs) (simp_all add: map_of_map get_entries_def split: option.splits)

lemma count_loaded_json_of_store: "count_loaded (json_of_store m) = Inr (total_active m)"
  by (simp add: count_loaded_def json_of_store_def sum_lens_json total_active_def)

lemma load_memory_json_of_store:
  "fst (load_memory ev (Json (json_of_store m))) = Inr (json_of_store m)"
  by (simp add: load_memory_def count_loaded_json_of_store Let_def)

lemma entry_items_inj: "entry_items (e :: entry) = entry_items e' \<Longrightarrow> e = e'"
  by (cases e; cases e') (auto simp: entry_items_def split: option.splits)

lemma json_of_entry_inj: "inj json_of_entry"
  by (rule injI) (simp add: json_of_entry_def entry_items_inj)

lemma json_of_archived_inj: "inj json_of_archived"
proof (rule injI)
  fix a a' :: archived_entry
  assume "json_of_archived a = json_of_archived a'"
  then show "a = a'"
    by (cases a; cases a')
      (auto simp: json_of_archived_def entry_items_def split: option.splits)
qed

lemma json_of_store_inj: "inj json_of_store"
proof (rule injI)
  fix m m' :: store
  assume eq: "json_of_store m = json_of_store m'"
  have i: "inj (\<lambda>(cat :: string, es). (cat, JList (map json_of_entry es)))"
    using json_of_entry_inj by (auto simp: inj_on_def)
  from eq have "version m = version m'" "last_updated m = last_updated m'"
    by (simp_all add: json_of_store_def)
  moreover from eq have "categories m = categories m'"
    using i by (simp add: json_of_store_def)
  moreover from eq have "archive m = archive m'"
    using json_of_archived_inj by (simp add: json_of_store_def)
  ultimately show "m = m'"
    by simp
qed





text \<open>A JSON document that is not an object makes \<^verbatim>\<open>data.get\<close> raise
  \<^verbatim>\<open>AttributeError\<close>, which the handler of \<^verbatim>\<open>load_memory\<close> does not catch.\<close>

lemma load_memory_not_an_object:
  "load_memory ev (Json (JList xs)) = (Inl AttributeError, [(Info, ''Loading memory from file'')])"
  by (simp add: load_memory_def count_loaded_def)

text \<open>
  C9 (as amended). For every store, \<^verbatim>\<open>save_memory\<close> followed by \<^verbatim>\<open>load_memory\<close> yields
  the store as \<^verbatim>\<open>save_memory\<close> left it in memory: the store before the save with
  \<^verbatim>\<open>last_updated\<close> set to the time of the save. (Distinct stores have distinct
  documents.)
\<close>

theorem save_memory_then_load_memory:
  "fst (load_memory ev' (disk (save_memory ev mgr)))
     = Inr (json_of_store (memory (save_memory ev mgr)))
   \<and> memory (save_memory ev mgr) = (memory mgr)\<lparr>last_updated := isoformat (now ev)\<rparr>
   \<and> inj json_of_store"
  using json_of_store_inj
  by (simp add: save_memory_def Let_def load_memory_json_of_store)

text \<open>
  C9 (as stated) fails: \<^verbatim>\<open>save_memory\<close> stamps \<^verbatim>\<open>last_updated\<close>, so what is loaded
  differs from the store as it was before the save.
\<close>

theorem save_memory_stamps_counterexample:
  "last_updated (memory undated_manager) = ''2026-10-01T10:00:00''
   \<and> last_updated (memory (save_memory (sample_env Raises None) undated_manager))
       = ''2026-11-04T09:05:00''
   \<and> fst (load_memory (sample_env Raises None)
          (disk (save_memory (sample_env Raises None) undated_manager)))
     \<noteq> Inr (json_of_store (memory undated_manager))"
proof -
  have a: "last_updated (memory undated_manager) = ''2026-10-01T10:00:00''"
    by (simp add: undated_manager_def sample_store_def)
  have b: "last_updated (memory (save_memory (sample_env Raises None) undated_manager))
       = ''2026-11-04T09:05:00''"
    by code_simp
  let ?m = "memory undated_manager"
  let ?ev = "sample_env Raises None"
  have "last_updated (?m\<lparr>last_updated := isoformat (now ?ev)\<rparr>) \<noteq> last_updated ?m"
    by code_simp
  then have "?m\<lparr>last_updated := isoformat (now ?ev)\<rparr> \<noteq> ?m"
    by metis
  then have "json_of_store (?m\<lparr>last_updated := isoformat (now ?ev)\<rparr>) \<noteq> json_of_store ?m"
    using json_of_store_inj by (simp add: inj_eq)
  then have "fst (load_memory (sample_env Raises None)
          (disk (save_memory (sample_env Raises None) undated_manager)))
     \<noteq> Inr (json_of_store (memory undated_manager))"
    by (simp add: save_memory_def Let_def load_memory_json_of_store)
  with a b show ?thesis by blast
qed

section \<open>Failure of the extraction service\<close>

lemma get_memory_context_logs_info:
  "\<not> failure_logged (snd (get_memory_context m))"
  by (simp add: get_memory_context_def failure_logged_def Let_def split: prod.splits)

lemma failure_logged_append:
  "failure_logged (xs @ ys) = (failure_logged xs \<or> failure_logged ys)"
  by (auto simp: failure_logged_def)

lemma call_extraction_llm_failed:
  assumes "service_failed ev summary u a"
  shows "fst (call_extraction_llm ev u a summary) = []
     \<and> (failure_logged (snd (call_extraction_llm ev u a summary))
          \<longleftrightarrow> \<not> string_or_object_payload ev summary u a)"
proof (cases "generate_content ev summary u (take 1500 a)")
  case Raises
  then show ?thesis
    by (simp add: call_extraction_llm_def string_or_object_payload_def failure_logged_def)
next
  case (Text t)
  show ?thesis
  proof (cases t)
    case None
    with Text show ?thesis
      by (simp add: call_extraction_llm_def string_or_object_payload_def failure_logged_def)
  next
    case (Some s)
    show ?thesis
    proof (cases "json_loads ev (strip_fences s)")
      case None
      with Text Some show ?thesis
        by (simp add: call_extraction_llm_def string_or_object_payload_def failure_logged_def)
    next
      case (Some v)
      with Text \<open>t = Some s\<close> assms show ?thesis
        by (cases v)
          (simp_all add: call_extraction_llm_def string_or_object_payload_def
            failure_logged_def service_failed_def)
    qed
  qed
qed

lemma store_new_entries_Nil:
  "store_new_entries ev agent [] mgr = (None, add_logs [(Info, ''No new insights extracted.'')] mgr)"
  by (simp add: store_new_entries_def)

text \<open>
  C7 (as amended). If the extraction service fails to deliver a list of candidates (the
  call raises or times out, the response has no text, the text is not JSON, or the JSON
  value is not a list), \<^verbatim>\<open>extract_and_store\<close> returns normally and leaves the store and
  the snapshot file unchanged. A warning or an error is logged for the failure, except
  when the payload is a JSON string or object: that payload is counted as candidates
  and dropped, with lines of level info only.
\<close>

theorem extract_and_store_service_failure:
  assumes "service_failed ev (fst (get_memory_context (memory mgr))) u a"
  shows "fst (extract_and_store ev u a agent mgr) = None
     \<and> memory (snd (extract_and_store ev u a agent mgr)) = memory mgr
     \<and> disk (snd (extract_and_store ev u a agent mgr)) = disk mgr
     \<and> (failure_logged (new_logs mgr (snd (extract_and_store ev u a agent mgr)))
          \<longleftrightarrow> \<not> string_or_object_payload ev (fst (get_memory_context (memory mgr))) u a)"
proof -
  obtain summary lg1 where g: "get_memory_context (memory mgr) = (summary, lg1)"
    by (cases "get_memory_context (memory mgr)")
  obtain es lg2 where c: "call_extraction_llm ev u a summary = (es, lg2)"
    by (cases "call_extraction_llm ev u a summary")
  from assms g have "service_failed ev summary u a" by simp
  from call_extraction_llm_failed [OF this] c
  have es: "es = []" and l2: "failure_logged lg2 \<longleftrightarrow> \<not> string_or_object_payload ev summary u a"
    by simp_all
  from get_memory_context_logs_info [of "memory mgr"] g have l1: "\<not> failure_logged lg1"
    by simp
  have r: "extract_and_store ev u a agent mgr =
      (None, add_logs [(Info, ''No new insights extracted.'')]
               (add_logs ([(Info, ''Starting extraction'')] @ lg1 @ lg2) mgr))"
    using g c es by (simp add: extract_and_store_def store_new_entries_Nil)
  have n: "new_logs mgr (snd (extract_and_store ev u a agent mgr))
      = [(Info, ''Starting extraction'')] @ lg1 @ lg2 @ [(Info, ''No new insights extracted.'')]"
    by (simp add: r new_logs_def add_logs_def)
  have "failure_logged (new_logs mgr (snd (extract_and_store ev u a agent mgr)))
      \<longleftrightarrow> failure_logged lg2"
    unfolding n failure_logged_append using l1 by (simp add: failure_logged_def)
  with l2 g r show ?thesis
    by (simp add: add_logs_def)
qed

theorem extract_and_store_service_failure_witness:
  "service_failed (sample_env Raises None) (fst (get_memory_context (memory undated_manager)))
      ''Any news?'' ''None today.''
   \<and> extract_and_store (sample_env Raises None) ''Any news?'' ''None today.'' ''daily_briefing''
        undated_manager
      = (None,
         undated_manager\<lparr>logs :=
           [(Info, ''Starting extraction''), (Info, ''Memory context built''),
            (Info, ''Calling extraction LLM''), (Err, ''Extraction LLM call failed''),
            (Info, ''No new insights extracted.'')]\<rparr>)
   \<and> failure_logged (new_logs undated_manager
        (snd (extract_and_store (sample_env Raises None) ''Any news?'' ''None today.''
               ''daily_briefing'' undated_manager)))"
proof -
  have f: "service_failed (sample_env Raises None)
      (fst (get_memory_context (memory undated_manager))) ''Any news?'' ''None today.''"
    by (simp add: service_failed_def sample_env_def)
  have s: "\<not> string_or_object_payload (sample_env Raises None)
      (fst (get_memory_context (memory undated_manager))) ''Any news?'' ''None today.''"
    by (simp add: string_or_object_payload_def sample_env_def)
  have e: "extract_and_store (sample_env Raises None) ''Any news?'' ''None today.'' ''daily_briefing''
        undated_manager
      = (None,
         undated_manager\<lparr>logs :=
           [(Info, ''Starting extraction''), (Info, ''Memory context built''),
            (Info, ''Calling extraction LLM''), (Err, ''Extraction LLM call failed''),
            (Info, ''No new insights extracted.'')]\<rparr>)"
    by code_simp
  from extract_and_store_service_failure [OF f, of "''daily_briefing''"] f s e
  show ?thesis by simp
qed

text \<open>
  C7 (as stated) fails: when the service answers with one JSON object instead of a list,
  the payload is malformed and nothing is stored, but no line of the log reports a
  failure.
\<close>

theorem extract_and_store_object_payload_counterexample:
  "service_failed object_reply_env (fst (get_memory_context (memory undated_manager)))
      ''Any news?'' ''None today.''
   \<and> new_logs undated_manager
        (snd (extract_and_store object_reply_env ''Any news?'' ''None today.'' ''daily_briefing''
               undated_manager))
      = [(Info, ''Starting extraction''), (Info, ''Memory context built''),
         (Info, ''Calling extraction LLM''), (Info, ''Extraction returned candidate entries.''),
         (Info, ''No new insights extracted.'')]
   \<and> \<not> failure_logged (new_logs undated_manager
        (snd (extract_and_store object_reply_env ''Any news?'' ''None today.'' ''daily_briefing''
               undated_manager)))"
  by code_simp

text \<open>A payload that is a list is not a failure of the call; a candidate in it whose
  content is a number passes the truth test of the validation and makes \<^verbatim>\<open>len\<close> raise
  \<^verbatim>\<open>TypeError\<close>, which leaves \<^verbatim>\<open>extract_and_store\<close>.\<close>

lemma extract_and_store_raises_on_numeric_content:
  "fst (extract_and_store
          (sample_env (Text (Some ''[{...}]''))
             (Some (JList [JDict [(''category'', JStr ''event_history''),
                                  (''content'', JNum 12345)]])))
          ''Any news?'' ''None today.'' ''daily_briefing'' undated_manager)
     = Some TypeError"
  by code_simp

section \<open>The extraction pipeline\<close>

subsection \<open>Validation\<close>

lemma validate_append:
  "fst (validate (xs @ ys)) =
     (case fst (validate xs) of
        Inl e \<Rightarrow> Inl e
      | Inr vx \<Rightarrow> (case fst (validate ys) of Inl e \<Rightarrow> Inl e | Inr vy \<Rightarrow> Inr (vx @ vy)))"
  by (induction xs) (auto split: sum.splits bool.splits prod.splits)

lemma fst_validate_Cons:
  "fst (validate (c # xs)) =
     (case is_valid c of
        Inl e \<Rightarrow> Inl e
      | Inr b \<Rightarrow>
          (case fst (validate xs) of
             Inl e \<Rightarrow> Inl e
           | Inr vs \<Rightarrow> Inr (if b then c # vs else vs)))"
  by (simp split: sum.splits bool.splits prod.splits)

lemma validate_single:
  "fst (validate [c]) =
     (case is_valid c of Inl e \<Rightarrow> Inl e | Inr b \<Rightarrow> Inr (if b then [c] else []))"
  by (auto split: sum.splits bool.splits)

lemma validate_filter:
  "fst (validate xs) = Inr vs \<Longrightarrow> vs = filter (\<lambda>c. is_valid c = Inr True) xs"
  by (induction xs arbitrary: vs) (auto split: sum.splits bool.splits prod.splits)

lemma validate_drop_rejected:
  assumes "is_valid c = Inr False"
  shows "fst (validate (pre @ c # post)) = fst (validate (pre @ post))"
proof -
  have "fst (validate (c # post)) = fst (validate post)"
    using assms by (simp split: prod.splits)
  then show ?thesis
    by (simp only: validate_append)
qed

subsection \<open>Deduplication\<close>

lemma existing_contents_active:
  "existing_contents m = normalize_text ` content ` set (active_entries m)"
  by (auto simp: existing_contents_def active_entries_def)

lemma fst_dedup_loop_Cons:
  "fst (dedup_loop (a # xs) E) =
     (case content_str a of
        Inl e \<Rightarrow> Inl e
      | Inr c \<Rightarrow>
          if normalize_text c \<in> E then fst (dedup_loop xs E)
          else (case fst (dedup_loop xs (insert (normalize_text c) E)) of
                  Inl e \<Rightarrow> Inl e
                | Inr u \<Rightarrow> Inr (a # u)))"
  by (simp add: Let_def split: sum.splits prod.splits)

lemma dedup_loop_skip:
  assumes "content_str c = Inr t" and "normalize_text t \<in> E"
  shows "fst (dedup_loop (pre @ c # post) E) = fst (dedup_loop (pre @ post) E)"
  using assms(2)
proof (induction pre arbitrary: E)
  case Nil
  with assms(1) show ?case
    by (simp add: fst_dedup_loop_Cons del: dedup_loop.simps(2))
next
  case (Cons a pre)
  show ?case
  proof (cases "content_str a")
    case (Inl e)
    then show ?thesis
      by (simp add: fst_dedup_loop_Cons del: dedup_loop.simps(2))
  next
    case (Inr s)
    from Cons.prems have i: "normalize_text t \<in> insert (normalize_text s) E" by simp
    from Inr Cons.IH [OF Cons.prems] Cons.IH [OF i] show ?thesis
      by (simp add: fst_dedup_loop_Cons del: dedup_loop.simps(2))
  qed
qed

lemma dedup_loop_all_duplicates:
  "\<forall>c\<in>set xs. \<exists>t. content_str c = Inr t \<and> normalize_text t \<in> E
   \<Longrightarrow> fst (dedup_loop xs E) = Inr []"
  by (induction xs) (auto simp: fst_dedup_loop_Cons simp del: dedup_loop.simps(2))

lemma dedup_loop_sound:
  "fst (dedup_loop xs E) = Inr us \<Longrightarrow>
   set us \<subseteq> set xs \<and> (\<forall>u\<in>set us. \<exists>t. content_str u = Inr t \<and> normalize_text t \<notin> E)"
proof (induction xs arbitrary: E us)
  case Nil
  then show ?case by simp
next
  case (Cons a xs)
  show ?case
  proof (cases "content_str a")
    case (Inl e)
    with Cons.prems show ?thesis
      by (simp add: fst_dedup_loop_Cons del: dedup_loop.simps(2))
  next
    case (Inr s)
    show ?thesis
    proof (cases "normalize_text s \<in> E")
      case True
      with Inr Cons.prems have "fst (dedup_loop xs E) = Inr us"
        by (simp add: fst_dedup_loop_Cons del: dedup_loop.simps(2))
      from Cons.IH [OF this] show ?thesis by auto
    next
      case False
      with Inr Cons.prems obtain us' where
        u: "fst (dedup_loop xs (insert (normalize_text s) E)) = Inr us'" and us: "us = a # us'"
        by (auto simp: fst_dedup_loop_Cons simp del: dedup_loop.simps(2) split: sum.splits)
      from Cons.IH [OF u] Inr False us show ?thesis by auto
    qed
  qed
qed


subsection \<open>The effect of the pipeline\<close>

lemma memory_save_memory:
  "memory (save_memory ev mgr) = (memory mgr)\<lparr>last_updated := isoformat (now ev)\<rparr>"
  by (simp add: save_memory_def Let_def)

lemma disk_save_memory:
  "disk (save_memory ev mgr) = Json (json_of_store ((memory mgr)\<lparr>last_updated := isoformat (now ev)\<rparr>))"
  by (simp add: save_memory_def Let_def)

lemma prune_old_entries_fold:
  "fst (prune_old_entries ev d mgr)
     = snd (fold (prune_category (isoformat (days_ago ev d)) (isoformat (now ev)))
              VALID_CATEGORIES (memory mgr, 0))
   \<and> memory (snd (prune_old_entries ev d mgr))
     = fst (fold (prune_category (isoformat (days_ago ev d)) (isoformat (now ev)))
              VALID_CATEGORIES (memory mgr, 0))
   \<and> disk (snd (prune_old_entries ev d mgr)) = disk mgr"
  by (simp add: prune_old_entries_def Let_def split: prod.splits)

lemma effect_prune_logs:
  "fst (prune_old_entries ev d (mgr\<lparr>logs := l\<rparr>)) = fst (prune_old_entries ev d mgr)
   \<and> memory (snd (prune_old_entries ev d (mgr\<lparr>logs := l\<rparr>))) = memory (snd (prune_old_entries ev d mgr))
   \<and> disk (snd (prune_old_entries ev d (mgr\<lparr>logs := l\<rparr>))) = disk (snd (prune_old_entries ev d mgr))"
  by (simp add: prune_old_entries_fold)

lemma effect_commit_entries:
  "effect (commit_entries ev agent us mgr) =
     (case store_entries us agent (isoformat (now ev)) (memory mgr) of
        (Some e, m, lg) \<Rightarrow> (Some e, m, disk mgr)
      | (None, m, lg) \<Rightarrow>
          (let m1 = m\<lparr>last_updated := isoformat (now ev)\<rparr>;
               r = fold (prune_category (isoformat (days_ago ev 180)) (isoformat (now ev)))
                     VALID_CATEGORIES (m1, 0)
           in if snd r > 0
              then (None, (fst r)\<lparr>last_updated := isoformat (now ev)\<rparr>,
                    Json (json_of_store ((fst r)\<lparr>last_updated := isoformat (now ev)\<rparr>)))
              else (None, fst r, Json (json_of_store m1))))"
proof -
  obtain r m lg where s: "store_entries us agent (isoformat (now ev)) (memory mgr) = (r, m, lg)"
    by (cases "store_entries us agent (isoformat (now ev)) (memory mgr)")
  show ?thesis
  proof (cases r)
    case (Some e)
    with s show ?thesis
      by (simp add: commit_entries_def effect_def add_logs_def)
  next
    case None
    let ?x = "save_memory ev (add_logs lg (mgr\<lparr>memory := m\<rparr>))"
    obtain p mgr' where pr: "prune_old_entries ev 180 ?x = (p, mgr')"
      by (cases "prune_old_entries ev 180 ?x")
    have mx: "memory ?x = m\<lparr>last_updated := isoformat (now ev)\<rparr>"
      and dx: "disk ?x = Json (json_of_store (m\<lparr>last_updated := isoformat (now ev)\<rparr>))"
      by (simp_all add: memory_save_memory disk_save_memory add_logs_def)
    from prune_old_entries_fold [of ev 180 ?x] pr mx dx
    have "p = snd (fold (prune_category (isoformat (days_ago ev 180)) (isoformat (now ev)))
                VALID_CATEGORIES (m\<lparr>last_updated := isoformat (now ev)\<rparr>, 0))"
      and "memory mgr' = fst (fold (prune_category (isoformat (days_ago ev 180)) (isoformat (now ev)))
                VALID_CATEGORIES (m\<lparr>last_updated := isoformat (now ev)\<rparr>, 0))"
      and "disk mgr' = Json (json_of_store (m\<lparr>last_updated := isoformat (now ev)\<rparr>))"
      by simp_all
    with s None pr show ?thesis
      by (simp add: commit_entries_def effect_def Let_def memory_save_memory disk_save_memory)
  qed
qed

lemma add_logs_fields:
  "memory (add_logs l mgr) = memory mgr" "disk (add_logs l mgr) = disk mgr"
  by (simp_all add: add_logs_def)

lemma effect_commit_entries_logs:
  "effect (commit_entries ev agent us (add_logs l mgr)) = effect (commit_entries ev agent us mgr)"
  by (simp add: effect_commit_entries add_logs_fields split: prod.splits option.splits)

lemma effect_store_new_entries:
  "effect (store_new_entries ev agent xs mgr) =
     (case unique_of (memory mgr) xs of
        Inl e \<Rightarrow> (Some e, memory mgr, disk mgr)
      | Inr us \<Rightarrow>
          if us = [] then (None, memory mgr, disk mgr)
          else effect (commit_entries ev agent us mgr))"
proof (cases "xs = []")
  case True
  then show ?thesis
    by (simp add: store_new_entries_def unique_of_def deduplicate_def effect_def add_logs_def)
next
  case False
  obtain r3 lg3 where v: "validate xs = (r3, lg3)" by (cases "validate xs")
  show ?thesis
  proof (cases r3)
    case (Inl e)
    with v False show ?thesis
      by (simp add: store_new_entries_def unique_of_def effect_def add_logs_def)
  next
    case (Inr vs)
    obtain r4 lg4 where d: "deduplicate (memory mgr) vs = (r4, lg4)"
      by (cases "deduplicate (memory mgr) vs")
    show ?thesis
    proof (cases r4)
      case (Inl e)
      with v d Inr False show ?thesis
        by (simp add: store_new_entries_def unique_of_def effect_def add_logs_def)
    next
      case (Inr us)
      show ?thesis
      proof (cases "us = []")
        case True
        with v d Inr \<open>r3 = Inr vs\<close> False show ?thesis
          by (simp add: store_new_entries_def unique_of_def effect_def add_logs_fields)
      next
        case nonempty: False
        with v d Inr \<open>r3 = Inr vs\<close> False show ?thesis
          by (simp add: store_new_entries_def unique_of_def effect_commit_entries_logs)
      qed
    qed
  qed
qed

lemma effect_store_new_entries_logs:
  "effect (store_new_entries ev agent xs (add_logs l mgr)) = effect (store_new_entries ev agent xs mgr)"
  by (simp add: effect_store_new_entries effect_commit_entries_logs add_logs_fields
      split: sum.splits)

lemma effect_extract_and_store:
  "effect (extract_and_store ev u a agent mgr) =
     effect (store_new_entries ev agent
       (fst (call_extraction_llm ev u a (fst (get_memory_context (memory mgr))))) mgr)"
  by (simp add: extract_and_store_def effect_store_new_entries_logs split: prod.splits)


subsection \<open>Duplicates\<close>

lemma is_valid_string_content:
  "content_str c = Inr t \<Longrightarrow> \<exists>b. is_valid c = Inr b"
  by (auto simp: content_str_def is_valid_def split: jv.splits option.splits if_splits)

lemma validate_total:
  "\<forall>c\<in>set xs. \<exists>b. is_valid c = Inr b
   \<Longrightarrow> fst (validate xs) = Inr (filter (\<lambda>c. is_valid c = Inr True) xs)"
  by (induction xs) (auto split: prod.splits sum.splits bool.splits)

lemma is_duplicateD:
  "is_duplicate m c \<Longrightarrow> \<exists>t. content_str c = Inr t \<and> normalize_text t \<in> existing_contents m"
  by (auto simp: is_duplicate_def existing_contents_active split: sum.splits)

lemma unique_of_all_duplicates:
  assumes "list_all (is_duplicate m) xs"
  shows "unique_of m xs = Inr []"
proof -
  from assms have d: "\<forall>c\<in>set xs. \<exists>t. content_str c = Inr t \<and> normalize_text t \<in> existing_contents m"
    by (auto simp: list_all_iff dest: is_duplicateD)
  then have "\<forall>c\<in>set xs. \<exists>b. is_valid c = Inr b"
    by (blast dest: is_valid_string_content)
  then have v: "fst (validate xs) = Inr (filter (\<lambda>c. is_valid c = Inr True) xs)"
    by (rule validate_total)
  from d have "\<forall>c\<in>set (filter (\<lambda>c. is_valid c = Inr True) xs).
      \<exists>t. content_str c = Inr t \<and> normalize_text t \<in> existing_contents m"
    by simp
  then have "fst (dedup_loop (filter (\<lambda>c. is_valid c = Inr True) xs) (existing_contents m)) = Inr []"
    by (rule dedup_loop_all_duplicates)
  with v show ?thesis
    by (simp add: unique_of_def deduplicate_def)
qed

lemma unique_of_drop_duplicate:
  assumes "is_duplicate m c"
  shows "unique_of m (pre @ c # post) = unique_of m (pre @ post)"
proof -
  from is_duplicateD [OF assms] obtain t where
    c: "content_str c = Inr t" and n: "normalize_text t \<in> existing_contents m"
    by blast
  from is_valid_string_content [OF c] obtain b where b: "is_valid c = Inr b" ..
  have vsplit: "fst (validate (pre @ c # post)) =
     (case fst (validate pre) of
        Inl e \<Rightarrow> Inl e
      | Inr vp \<Rightarrow>
          (case fst (validate post) of
             Inl e \<Rightarrow> Inl e
           | Inr vq \<Rightarrow> Inr (vp @ (if b then [c] else []) @ vq)))"
    using validate_append [of pre "c # post"] b
    by (simp add: fst_validate_Cons del: validate.simps(2) split: sum.splits)
  note rhs = validate_append [of pre post]
  show ?thesis
  proof (cases "fst (validate pre)")
    case (Inl e)
    then show ?thesis
      unfolding unique_of_def vsplit rhs by simp
  next
    case (Inr vp)
    show ?thesis
    proof (cases "fst (validate post)")
      case (Inl e)
      with Inr show ?thesis
        unfolding unique_of_def vsplit rhs by simp
    next
      case vq: (Inr vq)
      show ?thesis
      proof (cases b)
        case True
        with Inr vq dedup_loop_skip [OF c n, of vp vq] show ?thesis
          unfolding unique_of_def vsplit rhs by (simp add: deduplicate_def)
      next
        case False
        with Inr vq show ?thesis
          unfolding unique_of_def vsplit rhs by simp
      qed
    qed
  qed
qed

lemma extract_and_store_duplicates:
  assumes "duplicate_call (memory mgr) (Extract ev u a agent)"
  shows "effect (extract_and_store ev u a agent mgr) = (None, memory mgr, disk mgr)"
  using assms
  by (simp add: duplicate_call_def effect_extract_and_store effect_store_new_entries
      unique_of_all_duplicates)

lemma fold_duplicate_calls:
  "list_all (duplicate_call (memory mgr)) calls \<Longrightarrow>
   memory (fold apply_call calls mgr) = memory mgr \<and> disk (fold apply_call calls mgr) = disk mgr"
proof (induction calls arbitrary: mgr)
  case Nil
  then show ?case by simp
next
  case (Cons c calls)
  from Cons.prems obtain ev u a agent where c: "c = Extract ev u a agent"
    by (cases c) (simp_all add: duplicate_call_def)
  with Cons.prems have "effect (extract_and_store ev u a agent mgr) = (None, memory mgr, disk mgr)"
    by (simp add: extract_and_store_duplicates)
  then have m: "memory (apply_call c mgr) = memory mgr" and d: "disk (apply_call c mgr) = disk mgr"
    using c by (simp_all add: effect_def)
  from Cons.prems m have "list_all (duplicate_call (memory (apply_call c mgr))) calls"
    by simp
  from Cons.IH [OF this] m d show ?case
    by simp
qed

text \<open>
  C1. Deduplication is global and idempotent. A candidate is a duplicate when its
  content normalises to the content of an active entry of any of the five categories.
  When the service returns only duplicates, \<^verbatim>\<open>extract_and_store\<close> returns normally and
  leaves the store and the snapshot file as they were: nothing is appended and nothing is
  saved; the same holds after any number of such calls. In a batch with other
  candidates the duplicate contributes nothing: the call has the effect it has without
  it. (\<open>store_new_entries\<close> is \<^verbatim>\<open>extract_and_store\<close> after the call of the service.)
\<close>

theorem duplicates_leave_store_unchanged:
  "(duplicate_call (memory mgr) (Extract ev u a agent) \<longrightarrow>
      effect (extract_and_store ev u a agent mgr) = (None, memory mgr, disk mgr))
   \<and> (list_all (duplicate_call (memory mgr)) calls \<longrightarrow>
        memory (fold apply_call calls mgr) = memory mgr
        \<and> disk (fold apply_call calls mgr) = disk mgr)
   \<and> (is_duplicate (memory mgr) c \<longrightarrow>
        effect (store_new_entries ev agent (pre @ c # post) mgr)
          = effect (store_new_entries ev agent (pre @ post) mgr))
   \<and> effect (extract_and_store ev u a agent mgr)
        = effect (store_new_entries ev agent
            (fst (call_extraction_llm ev u a (fst (get_memory_context (memory mgr))))) mgr)"
  using extract_and_store_duplicates [of mgr ev u a agent] fold_duplicate_calls [of mgr calls]
    unique_of_drop_duplicate [of "memory mgr" c pre post]
    effect_extract_and_store [of ev u a agent mgr]
  by (simp add: effect_store_new_entries)

theorem duplicates_leave_store_unchanged_witness:
  "duplicate_call (memory beer_manager) (Extract beer_env ''Beer?'' ''Noted.'' ''party_planner'')
   \<and> effect (extract_and_store beer_env ''Beer?'' ''Noted.'' ''party_planner'' beer_manager)
       = (None, memory beer_manager, disk beer_manager)
   \<and> memory (fold apply_call
         [Extract beer_env ''Beer?'' ''Noted.'' ''party_planner'',
          Extract beer_env ''Beer?'' ''Noted.'' ''party_planner''] beer_manager)
       = memory beer_manager
   \<and> disk (fold apply_call
         [Extract beer_env ''Beer?'' ''Noted.'' ''party_planner'',
          Extract beer_env ''Beer?'' ''Noted.'' ''party_planner''] beer_manager)
       = disk beer_manager
   \<and> is_duplicate (memory beer_manager) beer_candidate
   \<and> effect (store_new_entries beer_env ''party_planner'' [patio_candidate, beer_candidate]
         beer_manager)
       = effect (store_new_entries beer_env ''party_planner'' [patio_candidate] beer_manager)"
proof -
  have 1: "duplicate_call (memory beer_manager)
      (Extract beer_env ''Beer?'' ''Noted.'' ''party_planner'')"
    by code_simp
  have 2: "list_all (duplicate_call (memory beer_manager))
      [Extract beer_env ''Beer?'' ''Noted.'' ''party_planner'',
       Extract beer_env ''Beer?'' ''Noted.'' ''party_planner'']"
    using 1 by simp
  have 3: "is_duplicate (memory beer_manager) beer_candidate"
    by code_simp
  from duplicates_leave_store_unchanged [of beer_manager beer_env "''Beer?''" "''Noted.''"
      "''party_planner''"
      "[Extract beer_env ''Beer?'' ''Noted.'' ''party_planner'',
        Extract beer_env ''Beer?'' ''Noted.'' ''party_planner'']"
      beer_candidate "[patio_candidate]" "[]"] 1 2 3
  show ?thesis by simp
qed

section \<open>Validation and storing of candidates\<close>

subsection \<open>The acceptance test\<close>

lemma is_valid_string_or_absent:
  assumes "map_of kvs ''content'' = None \<or> (\<exists>t. map_of kvs ''content'' = Some (JStr t))"
  shows "is_valid (JDict kvs) =
     Inr (map_of kvs ''category'' \<in> Some ` JStr ` set VALID_CATEGORIES
          \<and> (\<exists>t. map_of kvs ''content'' = Some (JStr t) \<and> 3 < length t))"
  using assms
  by (auto simp: is_valid_def split: option.splits jv.splits)

lemma is_valid_not_object:
  "(\<forall>kvs. c \<noteq> JDict kvs) \<Longrightarrow> is_valid c = Inr False"
  by (cases c) (simp_all add: is_valid_def)

lemma is_valid_TrueD:
  "is_valid u = Inr True \<Longrightarrow>
   \<exists>kvs cat. u = JDict kvs \<and> map_of kvs ''category'' = Some (JStr cat) \<and> cat \<in> set VALID_CATEGORIES"
  by (cases u) (auto simp: is_valid_def split: option.splits jv.splits if_splits)

lemma content_strD:
  "content_str (JDict kvs) = Inr t \<Longrightarrow> map_of kvs ''content'' = Some (JStr t)"
  by (auto simp: content_str_def split: option.splits jv.splits)

lemma unique_of_drop_rejected:
  "is_valid c = Inr False \<Longrightarrow> unique_of m (pre @ c # post) = unique_of m (pre @ post)"
  by (simp add: unique_of_def validate_drop_rejected)

lemma unique_of_shape:
  assumes "unique_of m xs = Inr us" and "u \<in> set us"
  shows "\<exists>kvs cat t. u = JDict kvs \<and> map_of kvs ''category'' = Some (JStr cat)
     \<and> cat \<in> set VALID_CATEGORIES \<and> map_of kvs ''content'' = Some (JStr t)"
proof -
  from assms(1) obtain vs where v: "fst (validate xs) = Inr vs"
    and d: "fst (dedup_loop vs (existing_contents m)) = Inr us"
    by (auto simp: unique_of_def deduplicate_def split: sum.splits)
  from dedup_loop_sound [OF d] assms(2) obtain t where "u \<in> set vs" and c: "content_str u = Inr t"
    by blast
  with validate_filter [OF v] have "is_valid u = Inr True"
    by simp
  from is_valid_TrueD [OF this] obtain kvs cat where
    "u = JDict kvs" "map_of kvs ''category'' = Some (JStr cat)" "cat \<in> set VALID_CATEGORIES"
    by blast
  with c content_strD show ?thesis
    by blast
qed

subsection \<open>The commit loop\<close>

lemma has_categories_iff:
  "has_categories m = (\<forall>c\<in>set VALID_CATEGORIES. map_of (categories m) c \<noteq> None)"
  by (simp add: has_categories_def list_all_iff)

lemma has_categories_update:
  "has_categories m \<Longrightarrow> has_categories (m\<lparr>categories := AList.update cat es (categories m)\<rparr>)"
  by (simp add: has_categories_iff update_conv')

lemma store_entry_InrD:
  "store_entry u agent t m = Inr m2 \<Longrightarrow>
   \<exists>kvs cat c es. u = JDict kvs \<and> map_of kvs ''category'' = Some (JStr cat)
     \<and> map_of kvs ''content'' = Some (JStr c) \<and> map_of (categories m) cat = Some es
     \<and> m2 = m\<lparr>categories := AList.update cat (es @ [mem_entry m kvs cat c agent t]) (categories m)\<rparr>"
  by (auto simp: store_entry_def split: jv.splits option.splits)

lemma store_entry_well_shaped:
  assumes "well_shaped u" and "has_categories m"
  shows "\<exists>kvs cat c es. u = JDict kvs \<and> map_of kvs ''category'' = Some (JStr cat)
     \<and> map_of kvs ''content'' = Some (JStr c) \<and> map_of (categories m) cat = Some es
     \<and> store_entry u agent t m
         = Inr (m\<lparr>categories :=
                  AList.update cat (es @ [mem_entry m kvs cat c agent t]) (categories m)\<rparr>)"
proof -
  from assms(1) obtain kvs cat c where k: "u = JDict kvs" "map_of kvs ''category'' = Some (JStr cat)"
    "cat \<in> set VALID_CATEGORIES" "map_of kvs ''content'' = Some (JStr c)"
    by (auto simp: well_shaped_def)
  with assms(2) obtain es where "map_of (categories m) cat = Some es"
    by (auto simp: has_categories_iff)
  with k show ?thesis
    by (simp add: store_entry_def)
qed

lemma store_entry_mono:
  "store_entry u agent t m = Inr m2 \<Longrightarrow>
   e \<in> set (get_entries (categories m) c) \<Longrightarrow> e \<in> set (get_entries (categories m2) c)"
proof -
  assume a: "store_entry u agent t m = Inr m2" and b: "e \<in> set (get_entries (categories m) c)"
  from store_entry_InrD [OF a] obtain kvs cat c' es where
    es: "map_of (categories m) cat = Some es"
    and m2: "m2 = m\<lparr>categories :=
        AList.update cat (es @ [mem_entry m kvs cat c' agent t]) (categories m)\<rparr>"
    by blast
  from es have "get_entries (categories m) cat = es"
    by (simp add: get_entries_def)
  with b m2 show ?thesis
    by (cases "c = cat") (simp_all add: get_entries_update)
qed

lemma store_entries_mono:
  "store_entries us agent t m = (r, m', lg) \<Longrightarrow>
   e \<in> set (get_entries (categories m) c) \<Longrightarrow> e \<in> set (get_entries (categories m') c)"
proof (induction us arbitrary: m r lg)
  case Nil
  then show ?case by simp
next
  case (Cons u us)
  show ?case
  proof (cases "store_entry u agent t m")
    case (Inl x)
    with Cons.prems show ?thesis by simp
  next
    case (Inr m2)
    with Cons.prems(1) obtain lg2 where s: "store_entries us agent t m2 = (r, m', lg2)"
      by (auto split: prod.splits)
    from store_entry_mono [OF Inr Cons.prems(2)] Cons.IH [OF s] show ?thesis
      by simp
  qed
qed

lemma stored_as_mem_entry:
  "map_of kvs ''content'' = Some (JStr c) \<Longrightarrow> stored_as kvs agent t (mem_entry m kvs cat c agent t)"
  by (simp add: stored_as_def mem_entry_def)

lemma store_entries_stores:
  assumes "\<forall>u\<in>set us. well_shaped u" and "has_categories m"
  shows "\<exists>m' lg. store_entries us agent t m = (None, m', lg)
     \<and> (\<forall>kvs. JDict kvs \<in> set us \<longrightarrow>
           (\<exists>cat e. map_of kvs ''category'' = Some (JStr cat) \<and> stored_as kvs agent t e
              \<and> e \<in> set (get_entries (categories m') cat)))"
  using assms
proof (induction us arbitrary: m)
  case Nil
  then show ?case by simp
next
  case (Cons u us)
  from Cons.prems have w: "well_shaped u" and ws: "\<forall>u\<in>set us. well_shaped u"
    by simp_all
  from store_entry_well_shaped [OF w Cons.prems(2), of agent t]
  obtain kvs cat c es where k: "u = JDict kvs" "map_of kvs ''category'' = Some (JStr cat)"
    "map_of kvs ''content'' = Some (JStr c)" "map_of (categories m) cat = Some es"
    and s: "store_entry u agent t m
         = Inr (m\<lparr>categories :=
                  AList.update cat (es @ [mem_entry m kvs cat c agent t]) (categories m)\<rparr>)"
    by blast
  let ?new = "mem_entry m kvs cat c agent t"
  let ?m2 = "m\<lparr>categories := AList.update cat (es @ [?new]) (categories m)\<rparr>"
  have h2: "has_categories ?m2"
    using Cons.prems(2) by (rule has_categories_update)
  from Cons.IH [OF ws h2] obtain m' lg where
    r: "store_entries us agent t ?m2 = (None, m', lg)"
    and st: "\<forall>kvs. JDict kvs \<in> set us \<longrightarrow>
           (\<exists>cat e. map_of kvs ''category'' = Some (JStr cat) \<and> stored_as kvs agent t e
              \<and> e \<in> set (get_entries (categories m') cat))"
    by blast
  have "?new \<in> set (get_entries (categories ?m2) cat)"
    by (simp add: get_entries_update)
  with store_entries_mono [OF r] have n: "?new \<in> set (get_entries (categories m') cat)"
    by blast
  have res: "store_entries (u # us) agent t m = (None, m', (Ok, ''Stored'') # lg)"
    using s r by simp
  have "\<forall>kvs'. JDict kvs' \<in> set (u # us) \<longrightarrow>
           (\<exists>cat e. map_of kvs' ''category'' = Some (JStr cat) \<and> stored_as kvs' agent t e
              \<and> e \<in> set (get_entries (categories m') cat))"
  proof (intro allI impI)
    fix kvs'
    assume "JDict kvs' \<in> set (u # us)"
    then consider "kvs' = kvs" | "JDict kvs' \<in> set us"
      using k(1) by auto
    then show "\<exists>cat e. map_of kvs' ''category'' = Some (JStr cat) \<and> stored_as kvs' agent t e
              \<and> e \<in> set (get_entries (categories m') cat)"
    proof cases
      case 1
      with k n stored_as_mem_entry [OF k(3), of agent t m cat] show ?thesis
        by blast
    next
      case 2
      with st show ?thesis by blast
    qed
  qed
  with res show ?case by blast
qed


lemma commit_entries_keeps_or_archives:
  assumes s: "store_entries us agent (isoformat (now ev)) (memory mgr) = (None, m', lg)"
    and c: "cat \<in> set VALID_CATEGORIES"
    and e: "e \<in> set (get_entries (categories m') cat)"
  shows "fst (commit_entries ev agent us mgr) = None
     \<and> (e \<in> set (get_entries (categories (memory (snd (commit_entries ev agent us mgr)))) cat)
        \<or> archived_copy e cat (isoformat (now ev))
             \<in> set (archive (memory (snd (commit_entries ev agent us mgr)))))"
proof -
  let ?now = "isoformat (now ev)"
  let ?cutoff = "isoformat (days_ago ev 180)"
  let ?m1 = "m'\<lparr>last_updated := ?now\<rparr>"
  obtain mf n where f: "fold (prune_category ?cutoff ?now) VALID_CATEGORIES (?m1, 0) = (mf, n)"
    by (cases "fold (prune_category ?cutoff ?now) VALID_CATEGORIES (?m1, 0)")
  note r = fold_prune_category [OF distinct_VALID_CATEGORIES f]
  from r c have k: "get_entries (categories mf) cat = kept_entries ?cutoff ?m1 cat"
    by simp
  from r have a: "archive mf = archive ?m1
      @ concat (map (\<lambda>c. map (\<lambda>e. archived_copy e c ?now) (old_entries ?cutoff ?m1 c))
                    VALID_CATEGORIES)"
    by simp
  have d: "e \<in> set (get_entries (categories mf) cat)
      \<or> archived_copy e cat ?now \<in> set (archive mf)"
  proof (cases "get_created e < ?cutoff")
    case True
    with e have "e \<in> set (old_entries ?cutoff ?m1 cat)"
      by (simp add: old_entries_def)
    with c a have "archived_copy e cat ?now \<in> set (archive mf)"
      by auto
    then show ?thesis ..
  next
    case False
    with e k have "e \<in> set (get_entries (categories mf) cat)"
      by (simp add: kept_entries_def)
    then show ?thesis ..
  qed
  from effect_commit_entries [of ev agent us mgr] s f
  have "effect (commit_entries ev agent us mgr) =
      (if n > 0 then (None, mf\<lparr>last_updated := ?now\<rparr>, Json (json_of_store (mf\<lparr>last_updated := ?now\<rparr>)))
       else (None, mf, Json (json_of_store ?m1)))"
    by (simp add: Let_def)
  then have "fst (commit_entries ev agent us mgr) = None"
    and "categories (memory (snd (commit_entries ev agent us mgr))) = categories mf"
    and "archive (memory (snd (commit_entries ev agent us mgr))) = archive mf"
    by (simp_all add: effect_def split: if_splits)
  with d show ?thesis by simp
qed

lemma store_new_entries_stores:
  assumes h: "has_categories (memory mgr)"
    and u: "unique_of (memory mgr) xs = Inr us"
    and k: "JDict kvs \<in> set us"
  shows "fst (store_new_entries ev agent xs mgr) = None
     \<and> (\<exists>cat e. map_of kvs ''category'' = Some (JStr cat) \<and> cat \<in> set VALID_CATEGORIES
          \<and> stored_as kvs agent (isoformat (now ev)) e
          \<and> (e \<in> set (get_entries (categories (memory (snd (store_new_entries ev agent xs mgr)))) cat)
              \<or> archived_copy e cat (isoformat (now ev))
                   \<in> set (archive (memory (snd (store_new_entries ev agent xs mgr))))))"
proof -
  let ?now = "isoformat (now ev)"
  from unique_of_shape [OF u] have ws: "\<forall>u\<in>set us. well_shaped u"
    by (auto simp: well_shaped_def)
  from store_entries_stores [OF ws h, of agent ?now] k obtain m' lg cat e where
    s: "store_entries us agent ?now (memory mgr) = (None, m', lg)"
    and c: "map_of kvs ''category'' = Some (JStr cat)"
    and st: "stored_as kvs agent ?now e"
    and e: "e \<in> set (get_entries (categories m') cat)"
    by blast
  from unique_of_shape [OF u k] c have v: "cat \<in> set VALID_CATEGORIES"
    by auto
  from k have ne: "us \<noteq> []" by auto
  from effect_store_new_entries [of ev agent xs mgr] u ne
  have "effect (store_new_entries ev agent xs mgr) = effect (commit_entries ev agent us mgr)"
    by simp
  then have "fst (store_new_entries ev agent xs mgr) = fst (commit_entries ev agent us mgr)"
    and "memory (snd (store_new_entries ev agent xs mgr)) = memory (snd (commit_entries ev agent us mgr))"
    by (simp_all add: effect_def)
  with commit_entries_keeps_or_archives [OF s v e] c v st show ?thesis
    by auto
qed

text \<open>
  C3 (as amended). A candidate that is a JSON object whose content is a string or absent
  is accepted if and only if its category is one of the five tags and its content is
  longer than 3 characters; the content is not trimmed. A candidate that is not an object
  is rejected. A rejected candidate is dropped without affecting its siblings: the call
  has the effect it has without it. In a store that holds the five categories every
  candidate that is accepted and not a duplicate is stored: the call returns normally and
  an entry with the candidate's content, the calling agent and the time of the call is in
  the candidate's category (or, pruned at once, in the archive); its confidence is the
  candidate's, and \<^verbatim>\<open>"medium"\<close> when the candidate has no confidence field.
\<close>

theorem candidates_accepted_and_stored:
  "((map_of kvs ''content'' = None \<or> (\<exists>t. map_of kvs ''content'' = Some (JStr t))) \<longrightarrow>
      is_valid (JDict kvs) =
        Inr (map_of kvs ''category'' \<in> Some ` JStr ` set VALID_CATEGORIES
             \<and> (\<exists>t. map_of kvs ''content'' = Some (JStr t) \<and> 3 < length t)))
   \<and> ((\<forall>kvs. c \<noteq> JDict kvs) \<longrightarrow> is_valid c = Inr False)
   \<and> (is_valid c = Inr False \<longrightarrow>
        effect (store_new_entries ev agent (pre @ c # post) mgr)
          = effect (store_new_entries ev agent (pre @ post) mgr))
   \<and> (has_categories (memory mgr) \<and> unique_of (memory mgr) xs = Inr us \<and> JDict kvs \<in> set us \<longrightarrow>
        fst (store_new_entries ev agent xs mgr) = None
        \<and> (\<exists>cat e. map_of kvs ''category'' = Some (JStr cat) \<and> cat \<in> set VALID_CATEGORIES
             \<and> stored_as kvs agent (isoformat (now ev)) e
             \<and> (e \<in> set (get_entries
                           (categories (memory (snd (store_new_entries ev agent xs mgr)))) cat)
                 \<or> archived_copy e cat (isoformat (now ev))
                      \<in> set (archive (memory (snd (store_new_entries ev agent xs mgr)))))))
   \<and> (map_of kvs ''confidence'' = None \<and> stored_as kvs agent t e \<longrightarrow> confidence e = JStr ''medium'')"
proof -
  have 1: "(map_of kvs ''content'' = None \<or> (\<exists>t. map_of kvs ''content'' = Some (JStr t))) \<longrightarrow>
      is_valid (JDict kvs) =
        Inr (map_of kvs ''category'' \<in> Some ` JStr ` set VALID_CATEGORIES
             \<and> (\<exists>t. map_of kvs ''content'' = Some (JStr t) \<and> 3 < length t))"
    using is_valid_string_or_absent [of kvs] by blast
  have 2: "(\<forall>kvs. c \<noteq> JDict kvs) \<longrightarrow> is_valid c = Inr False"
    using is_valid_not_object [of c] by blast
  have 3: "is_valid c = Inr False \<longrightarrow>
        effect (store_new_entries ev agent (pre @ c # post) mgr)
          = effect (store_new_entries ev agent (pre @ post) mgr)"
    by (simp add: effect_store_new_entries unique_of_drop_rejected)
  have 4: "has_categories (memory mgr) \<and> unique_of (memory mgr) xs = Inr us \<and> JDict kvs \<in> set us \<longrightarrow>
        fst (store_new_entries ev agent xs mgr) = None
        \<and> (\<exists>cat e. map_of kvs ''category'' = Some (JStr cat) \<and> cat \<in> set VALID_CATEGORIES
             \<and> stored_as kvs agent (isoformat (now ev)) e
             \<and> (e \<in> set (get_entries
                           (categories (memory (snd (store_new_entries ev agent xs mgr)))) cat)
                 \<or> archived_copy e cat (isoformat (now ev))
                      \<in> set (archive (memory (snd (store_new_entries ev agent xs mgr))))))"
    using store_new_entries_stores [of mgr xs us kvs ev agent] by blast
  have 5: "map_of kvs ''confidence'' = None \<and> stored_as kvs agent t e \<longrightarrow> confidence e = JStr ''medium''"
    by (simp add: stored_as_def)
  from 1 2 3 4 5 show ?thesis by blast
qed

theorem candidates_accepted_and_stored_witness:
  "is_valid patio_candidate = Inr True
   \<and> is_valid (JStr ''note'') = Inr False
   \<and> effect (store_new_entries beer_env ''party_planner'' [patio_candidate, JStr ''note'']
         beer_manager)
       = effect (store_new_entries beer_env ''party_planner'' [patio_candidate] beer_manager)
   \<and> fst (store_new_entries beer_env ''party_planner'' [patio_candidate, JStr ''note'']
         beer_manager) = None
   \<and> get_entries (categories (memory (snd (store_new_entries beer_env ''party_planner''
         [patio_candidate, JStr ''note''] beer_manager)))) ''operational_notes''
       = [\<lparr>entry_id = ''ops_001'', content = ''Patio heaters need propane by Friday'',
           source_agent = ''party_planner'', created = Some ''2026-11-04T09:05:00'',
           confidence = JStr ''medium''\<rparr>]
   \<and> confidence \<lparr>entry_id = ''ops_001'', content = ''Patio heaters need propane by Friday'',
           source_agent = ''party_planner'', created = Some ''2026-11-04T09:05:00'',
           confidence = JStr ''medium''\<rparr> = JStr ''medium''"
proof -
  let ?kvs = "[(''category'', JStr ''operational_notes''),
               (''content'', JStr ''Patio heaters need propane by Friday'')]"
  let ?e = "\<lparr>entry_id = ''ops_001'', content = ''Patio heaters need propane by Friday'',
           source_agent = ''party_planner'', created = Some ''2026-11-04T09:05:00'',
           confidence = JStr ''medium''\<rparr>"
  have p: "patio_candidate = JDict ?kvs"
    by (simp add: patio_candidate_def)
  have 1: "map_of ?kvs ''content'' = None
      \<or> (\<exists>t. map_of ?kvs ''content'' = Some (JStr t))"
    by simp
  have 2: "\<forall>kvs. JStr ''note'' \<noteq> JDict kvs"
    by simp
  have 3: "is_valid (JStr ''note'') = Inr False"
    by (simp add: is_valid_def)
  have 4: "has_categories (memory beer_manager)
      \<and> unique_of (memory beer_manager) [patio_candidate, JStr ''note''] = Inr [patio_candidate]
      \<and> JDict ?kvs \<in> set [patio_candidate]"
    unfolding p by code_simp
  have 5: "map_of ?kvs ''confidence'' = None
      \<and> stored_as ?kvs ''party_planner'' ''2026-11-04T09:05:00'' ?e"
    by (simp add: stored_as_def)
  have 6: "get_entries (categories (memory (snd (store_new_entries beer_env ''party_planner''
         [patio_candidate, JStr ''note''] beer_manager)))) ''operational_notes'' = [?e]"
    by code_simp
  have 7: "map_of ?kvs ''category'' \<in> Some ` JStr ` set VALID_CATEGORIES
      \<and> (\<exists>t. map_of ?kvs ''content'' = Some (JStr t) \<and> 3 < length t)"
    by (simp add: VALID_CATEGORIES_def)
  from candidates_accepted_and_stored [where kvs = "?kvs" and c = "JStr ''note''"
      and ev = beer_env and agent = "''party_planner''" and pre = "[patio_candidate]"
      and post = "[]" and mgr = beer_manager and xs = "[patio_candidate, JStr ''note'']"
      and us = "[patio_candidate]" and t = "''2026-11-04T09:05:00''" and e = "?e"]
    1 2 3 4 5 6 7 p
  show ?thesis by simp
qed

text \<open>
  C3 (as stated) fails: the content \<^verbatim>\<open>"ok  "\<close> has 2 characters after trimming, and the
  code accepts and stores it, since it measures the untrimmed string.
\<close>

theorem untrimmed_content_counterexample:
  "is_valid padded_candidate = Inr True
   \<and> \<not> valid_by_spec padded_candidate
   \<and> map content (get_entries (categories (memory (snd (store_new_entries beer_env
         ''party_planner'' [padded_candidate] beer_manager)))) ''event_history'')
       = [''ok  '']"
  by code_simp

text \<open>A candidate whose content is a number is neither accepted nor rejected: \<^verbatim>\<open>len\<close>
  raises \<^verbatim>\<open>TypeError\<close> in the validation loop and the whole batch is lost.\<close>

lemma numeric_content_aborts_batch:
  "effect (store_new_entries beer_env ''party_planner'' [patio_candidate, numeric_candidate]
     beer_manager)
   = (Some TypeError, memory beer_manager, disk beer_manager)"
  by code_simp

section \<open>Id allocation\<close>

subsection \<open>Decimal numerals\<close>

lemma of_char_digit_char: "d < 10 \<Longrightarrow> of_char (digit_char d) = 48 + d"
proof -
  assume "d < 10"
  then have "d \<in> {0, 1, 2, 3, 4, 5, 6, 7, 8, 9}"
    by auto
  then show ?thesis
    by (auto simp: digit_char_def)
qed

lemma decimal_value_snoc:
  "decimal_value (s @ [c]) = 10 * decimal_value s + (of_char c - 48)"
  by (simp add: decimal_value_def)

lemma decimal_value_dec: "decimal_value (dec n) = n"
proof (induction n rule: dec.induct)
  case (1 n)
  show ?case
  proof (cases "n < 10")
    case True
    then show ?thesis
      using decimal_value_snoc [of "[]" "digit_char n"]
      by (simp add: dec.simps [of n] of_char_digit_char decimal_value_def)
  next
    case False
    with 1 have "decimal_value (dec (n div 10)) = n div 10"
      by simp
    with False show ?thesis
      by (simp add: dec.simps [of n] decimal_value_snoc of_char_digit_char)
  qed
qed

lemma decimal_value_zeros: "decimal_value (replicate k (CHR ''0'') @ s) = decimal_value s"
proof -
  have "foldl (\<lambda>n c. 10 * n + (of_char c - 48)) 0 (replicate k (CHR ''0'')) = (0 :: nat)"
    by (induction k) simp_all
  then show ?thesis
    by (simp add: decimal_value_def)
qed

lemma decimal_value_zfill: "decimal_value (zfill w (dec n)) = n"
  by (simp add: zfill_def decimal_value_zeros decimal_value_dec)

lemma id_for_inj: "id_for cat k = id_for cat k' \<Longrightarrow> k = k'"
proof -
  assume "id_for cat k = id_for cat k'"
  then have "zfill 3 (dec k) = zfill 3 (dec k')"
    by (simp add: id_for_def)
  then have "decimal_value (zfill 3 (dec k)) = decimal_value (zfill 3 (dec k'))"
    by simp
  then show ?thesis
    by (simp only: decimal_value_zfill)
qed

lemma generate_id_id_for:
  "generate_id m cat = id_for cat (length (ids_of m cat) + 1)"
  by (simp add: generate_id_def id_for_def ids_of_def Let_def)


subsection \<open>The numbering is an invariant\<close>

lemma ids_of_last_updated: "ids_of (m\<lparr>last_updated := x\<rparr>) c = ids_of m c"
  by (simp add: ids_of_def)

lemma numbered_last_updated: "numbered (m\<lparr>last_updated := x\<rparr>) = numbered m"
  by (simp add: numbered_def ids_of_last_updated)

lemma numbered_empty_memory: "numbered (empty_memory ev)"
  by (simp add: numbered_def ids_of_def empty_memory_def VALID_CATEGORIES_def get_entries_def)

lemma numbered_mset:
  assumes "\<forall>c. mset (ids_of m1 c) = mset (ids_of m c)" and "numbered m"
  shows "numbered m1"
proof -
  from assms(1) have "\<forall>c. length (ids_of m1 c) = length (ids_of m c)"
    by (blast dest: mset_eq_length)
  with assms show ?thesis
    by (simp add: numbered_def)
qed

lemma numbered_store_entry:
  assumes s: "store_entry u agent t m = Inr m2" and n: "numbered m"
  shows "numbered m2"
proof -
  from store_entry_InrD [OF s] obtain kvs cat c es where
    es: "map_of (categories m) cat = Some es"
    and m2: "m2 = m\<lparr>categories :=
        AList.update cat (es @ [mem_entry m kvs cat c agent t]) (categories m)\<rparr>"
    by blast
  from es have g: "get_entries (categories m) cat = es"
    by (simp add: get_entries_def)
  have i: "entry_id (mem_entry m kvs cat c agent t) = id_for cat (Suc (length (ids_of m cat)))"
    using generate_id_id_for [of m cat] by (simp add: mem_entry_def)
  have same: "ids_of m2 c' = ids_of m c'" if "c' \<noteq> cat" for c'
    using that m2 by (simp add: ids_of_def get_entries_update)
  have new: "mset (ids_of m2 cat) = add_mset (id_for cat (Suc (length (ids_of m cat)))) (mset (ids_of m cat))"
    and len: "length (ids_of m2 cat) = Suc (length (ids_of m cat))"
    using m2 g i by (simp_all add: ids_of_def get_entries_update)
  show ?thesis
    unfolding numbered_def
  proof
    fix c'
    show "mset (ids_of m2 c') = mset (map (id_for c') [1..<Suc (length (ids_of m2 c'))])"
    proof (cases "c' = cat")
      case True
      from n have "mset (ids_of m cat) = mset (map (id_for cat) [1..<Suc (length (ids_of m cat))])"
        by (simp add: numbered_def)
      with True new len show ?thesis
        by simp
    next
      case False
      with n same [OF False] show ?thesis
        by (simp add: numbered_def)
    qed
  qed
qed

lemma numbered_store_entries:
  "numbered m \<Longrightarrow> numbered (fst (snd (store_entries us agent t m)))"
proof (induction us arbitrary: m)
  case Nil
  then show ?case by simp
next
  case (Cons u us)
  show ?case
  proof (cases "store_entry u agent t m")
    case (Inl e)
    with Cons.prems show ?thesis by simp
  next
    case (Inr m2)
    from numbered_store_entry [OF Inr Cons.prems] have "numbered m2" .
    note ih = Cons.IH [OF this]
    obtain r m' lg where "store_entries us agent t m2 = (r, m', lg)"
      by (cases "store_entries us agent t m2")
    with ih Inr show ?thesis
      by simp
  qed
qed

lemma mset_map_filter_partition:
  "mset (map f (filter P xs)) + mset (map f (filter (\<lambda>x. \<not> P x) xs)) = mset (map f xs)"
  by (induction xs) simp_all

lemma entry_id_archived_copy: "entry_id (archived_copy e c t) = entry_id e"
  by (simp add: archived_copy_def)

lemma filter_archived_copies:
  "filter (\<lambda>a. original_category a = Some c') (map (\<lambda>e. archived_copy e cat t) xs)
     = (if c' = cat then map (\<lambda>e. archived_copy e cat t) xs else [])"
  by (induction xs) (auto simp: archived_copy_def)

lemma ids_of_prune_category:
  assumes "prune_category cutoff t cat (m, n) = (m1, n1)"
  shows "mset (ids_of m1 c') = mset (ids_of m c')"
proof -
  from assms have m1: "m1 = m\<lparr>archive := archive m
        @ map (\<lambda>e. archived_copy e cat t) (old_entries cutoff m cat),
      categories := AList.update cat (kept_entries cutoff m cat) (categories m)\<rparr>"
    by (simp add: prune_category_eq)
  show ?thesis
  proof (cases "c' = cat")
    case True
    have "mset (map entry_id (old_entries cutoff m cat))
        + mset (map entry_id (kept_entries cutoff m cat))
        = mset (map entry_id (get_entries (categories m) cat))"
      unfolding old_entries_def kept_entries_def by (rule mset_map_filter_partition)
    with True m1 show ?thesis
      by (simp add: ids_of_def get_entries_update filter_archived_copies entry_id_archived_copy
          comp_def ac_simps)
  next
    case False
    with m1 show ?thesis
      by (simp add: ids_of_def get_entries_update filter_archived_copies)
  qed
qed

lemma numbered_fold_prune_category:
  "numbered m \<Longrightarrow> numbered (fst (fold (prune_category cutoff t) cs (m, n)))"
proof (induction cs arbitrary: m n)
  case Nil
  then show ?case by simp
next
  case (Cons c cs)
  obtain m1 n1 where p: "prune_category cutoff t c (m, n) = (m1, n1)"
    by (cases "prune_category cutoff t c (m, n)")
  from ids_of_prune_category [OF p] Cons.prems have "numbered m1"
    by (intro numbered_mset [of m1 m]) simp_all
  from Cons.IH [OF this] p show ?case
    by simp
qed

lemma numbered_prune_old_entries:
  "numbered (memory mgr) \<Longrightarrow> numbered (memory (snd (prune_old_entries ev d mgr)))"
  by (simp add: prune_old_entries_fold numbered_fold_prune_category)

lemma numbered_commit_entries:
  assumes "numbered (memory mgr)"
  shows "numbered (memory (snd (commit_entries ev agent us mgr)))"
proof -
  obtain r m lg where s: "store_entries us agent (isoformat (now ev)) (memory mgr) = (r, m, lg)"
    by (cases "store_entries us agent (isoformat (now ev)) (memory mgr)")
  from numbered_store_entries [OF assms, of us agent "isoformat (now ev)"] s have m: "numbered m"
    by simp
  then have "numbered (fst (fold (prune_category (isoformat (days_ago ev 180)) (isoformat (now ev)))
      VALID_CATEGORIES (m\<lparr>last_updated := isoformat (now ev)\<rparr>, 0)))"
    by (intro numbered_fold_prune_category) (simp add: numbered_last_updated)
  with m s effect_commit_entries [of ev agent us mgr] show ?thesis
    by (cases r) (auto simp: effect_def Let_def numbered_last_updated split: if_splits)
qed

lemma numbered_extract_and_store:
  assumes "numbered (memory mgr)"
  shows "numbered (memory (snd (extract_and_store ev u a agent mgr)))"
proof -
  let ?xs = "fst (call_extraction_llm ev u a (fst (get_memory_context (memory mgr))))"
  have "memory (snd (extract_and_store ev u a agent mgr))
      = memory (snd (store_new_entries ev agent ?xs mgr))"
    using effect_extract_and_store [of ev u a agent mgr] by (simp add: effect_def)
  moreover have "memory (snd (store_new_entries ev agent ?xs mgr)) = memory mgr
      \<or> (\<exists>us. memory (snd (store_new_entries ev agent ?xs mgr))
            = memory (snd (commit_entries ev agent us mgr)))"
    using effect_store_new_entries [of ev agent ?xs mgr]
    by (auto simp: effect_def split: sum.splits if_splits)
  ultimately show ?thesis
    using assms numbered_commit_entries [OF assms] by auto
qed

lemma numbered_fold_apply_call:
  "numbered (memory mgr) \<Longrightarrow> numbered (memory (fold apply_call calls mgr))"
proof (induction calls arbitrary: mgr)
  case Nil
  then show ?case by simp
next
  case (Cons c calls)
  have "numbered (memory (apply_call c mgr))"
    using Cons.prems
    by (cases c) (simp_all add: numbered_extract_and_store numbered_prune_old_entries)
  from Cons.IH [OF this] show ?case
    by simp
qed

lemma numbered_run: "numbered (memory (run ev calls))"
  by (simp add: run_def fresh_manager_def numbered_fold_apply_call numbered_empty_memory)

lemma numbered_distinct:
  assumes "numbered m"
  shows "distinct (ids_of m cat) \<and> generate_id m cat \<notin> set (ids_of m cat)"
proof -
  let ?n = "length (ids_of m cat)"
  from assms have e: "mset (ids_of m cat) = mset (map (id_for cat) [1..<Suc ?n])"
    by (simp add: numbered_def)
  have "inj_on (id_for cat) (set [1..<Suc ?n])"
    by (rule inj_onI) (rule id_for_inj)
  then have "distinct (map (id_for cat) [1..<Suc ?n])"
    by (simp add: distinct_map)
  with e have d: "distinct (ids_of m cat)"
    by (metis mset_eq_imp_distinct_iff)
  from e have "set (ids_of m cat) = set (map (id_for cat) [1..<Suc ?n])"
    by (rule mset_eq_setD)
  moreover have "id_for cat (?n + 1) \<notin> set (map (id_for cat) [1..<Suc ?n])"
    by (auto dest: id_for_inj)
  ultimately have "generate_id m cat \<notin> set (ids_of m cat)"
    by (simp add: generate_id_id_for)
  with d show ?thesis ..
qed

text \<open>
  C2. After every finite sequence of calls of \<^verbatim>\<open>extract_and_store\<close> and
  \<^verbatim>\<open>prune_old_entries\<close> from the empty store, and for every category: no two entries that
  belong to the category (active or archived with that original category) share an id;
  their ids are exactly the ids \<^verbatim>\<open><prefix>_<sequence>\<close> numbered from 1 to their count; the
  next id is allocated with the sequence number (active entries of the category) +
  (archived entries whose original category it is) + 1, zero-padded to three digits, in
  every store; and that id is not yet in use.
\<close>

theorem ids_unique_in_every_history:
  "distinct (ids_of (memory (run ev calls)) cat)
   \<and> mset (ids_of (memory (run ev calls)) cat)
       = mset (map (id_for cat) [1..<Suc (length (ids_of (memory (run ev calls)) cat))])
   \<and> generate_id m cat
       = id_for cat (length (get_entries (categories m) cat)
                     + length (filter (\<lambda>a. original_category a = Some cat) (archive m)) + 1)
   \<and> generate_id (memory (run ev calls)) cat \<notin> set (ids_of (memory (run ev calls)) cat)"
  using numbered_distinct [OF numbered_run, of ev calls cat] numbered_run [of ev calls]
  by (simp add: numbered_def generate_id_def id_for_def Let_def)


text \<open>An example: the id of an archived entry is not given again.\<close>

lemma ids_of_sample_history:
  "ids_of (memory (run (sample_env Raises None) sample_history)) ''operational_notes''
     = [''ops_002'', ''ops_001'']
   \<and> map entry_id (archive (memory (run (sample_env Raises None) sample_history)))
     = [''ops_001'']"
  by code_simp

end
